theory Spec2Isabelle
  imports Main "HOL-Library.Multiset"
begin

chapter \<open>The model\<close>

section \<open>Exceptions\<close>

text \<open>
  The exception classes that the scraper raises or catches. All of them are subclasses of
  Python's \<open>Exception\<close>; the three Selenium lookup errors are subclasses of Selenium's
  \<open>WebDriverException\<close>. \<open>OtherException\<close> stands for a plain \<open>Exception(...)\<close>, as raised
  by \<open>raise Exception("...")\<close> in scraper.py. Process-level interrupts
  (\<open>BaseException\<close> outside \<open>Exception\<close>) are not modelled.
\<close>

datatype exn =
    NoSuchElementException
  | TimeoutException
  | StaleElementReferenceException
  | WebDriverException
  | TypeError
  | ValueError
  | NameError
  | OtherException

text \<open>\<open>except WebDriverException\<close> catches the class and its subclasses.\<close>

fun is_WebDriverException :: "exn \<Rightarrow> bool" where
  "is_WebDriverException NoSuchElementException = True"
| "is_WebDriverException TimeoutException = True"
| "is_WebDriverException StaleElementReferenceException = True"
| "is_WebDriverException WebDriverException = True"
| "is_WebDriverException _ = False"

section \<open>config.py: constants and option builders\<close>

definition MAX_RETRIES :: nat where
  "MAX_RETRIES = 3"

definition BROWSER :: string where
  "BROWSER = ''chrome''"

definition USE_STEALTH :: bool where
  "USE_STEALTH = True"

text \<open>
  A Python call binds its arguments to the parameters of the \<open>def\<close>. None of the option
  builders of config.py declares a default, \<open>*args\<close> or \<open>**kwargs\<close>, so a call binds exactly
  when the positional arguments are no more than the parameters, every keyword names a
  parameter not already bound, no keyword is repeated and no parameter is left unbound;
  otherwise the call raises \<open>TypeError\<close> before the body runs.
\<close>

definition call_binds :: "string list \<Rightarrow> nat \<Rightarrow> string list \<Rightarrow> bool" where
  "call_binds params npos kwargs \<longleftrightarrow>
     npos \<le> length params \<and> distinct kwargs \<and>
     set kwargs \<subseteq> set (drop npos params) \<and>
     npos + length kwargs = length params"

datatype options = ChromeOptions | StealthChromeOptions | FirefoxOptions

text \<open>\<open>def get_chrome_options():\<close>, \<open>def get_stealth_chrome_options():\<close> and
  \<open>def get_firefox_options():\<close> (config.py, lines 25, 58, 81): no parameters.\<close>

definition get_chrome_options_params :: "string list" where
  "get_chrome_options_params = []"

definition get_stealth_chrome_options_params :: "string list" where
  "get_stealth_chrome_options_params = []"

definition get_firefox_options_params :: "string list" where
  "get_firefox_options_params = []"

definition get_chrome_options :: "nat \<Rightarrow> string list \<Rightarrow> exn + options" where
  "get_chrome_options npos kwargs =
     (if call_binds get_chrome_options_params npos kwargs then Inr ChromeOptions
      else Inl TypeError)"

definition get_stealth_chrome_options :: "nat \<Rightarrow> string list \<Rightarrow> exn + options" where
  "get_stealth_chrome_options npos kwargs =
     (if call_binds get_stealth_chrome_options_params npos kwargs then Inr StealthChromeOptions
      else Inl TypeError)"

definition get_firefox_options :: "nat \<Rightarrow> string list \<Rightarrow> exn + options" where
  "get_firefox_options npos kwargs =
     (if call_binds get_firefox_options_params npos kwargs then Inr FirefoxOptions
      else Inl TypeError)"

section \<open>scraper.py: creating a session\<close>

text \<open>
  The browser libraries are outside the program. \<open>driver_env\<close> records what each of their
  calls inside \<open>_initialize_driver\<close> does in one run: \<open>None\<close> when the call returns,
  \<open>Some e\<close> when it raises \<open>e\<close>. The calls to \<open>stealth(...)\<close> and to
  \<open>driver.execute_script\<close> sit in \<open>try ... except Exception\<close> blocks that only log, so they
  cannot change the result and are left out.
\<close>

record driver_env =
  uc_Chrome :: "exn option"
  webdriver_Chrome :: "exn option"
  webdriver_Firefox :: "exn option"
  implicitly_wait :: "exn option"
  set_page_load_timeout :: "exn option"

datatype driver = UcChromeDriver | ChromeDriver | FirefoxDriver

text \<open>Lines 189 to 192: the two timeouts are set on the new driver, which is returned.\<close>

definition configure_driver :: "driver_env \<Rightarrow> driver \<Rightarrow> exn + driver" where
  "configure_driver env d =
     (case implicitly_wait env of
        Some e \<Rightarrow> Inl e
      | None \<Rightarrow> (case set_page_load_timeout env of Some e \<Rightarrow> Inl e | None \<Rightarrow> Inr d))"

text \<open>
  The body of the \<open>try\<close> of \<open>_initialize_driver\<close> (lines 103 to 192). Both Chrome branches
  call the option builder with the keyword argument \<open>headless=HEADLESS_MODE\<close>; the call of
  line 107 is outside the inner \<open>try\<close> of line 108, the call of line 113 is inside its
  \<open>except Exception\<close> handler.
\<close>

definition initialize_driver_try :: "string \<Rightarrow> bool \<Rightarrow> driver_env \<Rightarrow> exn + driver" where
  "initialize_driver_try browser use_stealth env =
     (if browser = ''chrome'' then
        (if use_stealth then
           (case get_stealth_chrome_options 0 [''headless''] of
              Inl e \<Rightarrow> Inl e
            | Inr opts \<Rightarrow>
                (case uc_Chrome env of
                   None \<Rightarrow> configure_driver env UcChromeDriver
                 | Some _ \<Rightarrow>
                     (case get_chrome_options 0 [''headless''] of
                        Inl e \<Rightarrow> Inl e
                      | Inr opts' \<Rightarrow>
                          (case webdriver_Chrome env of
                             Some e \<Rightarrow> Inl e
                           | None \<Rightarrow> configure_driver env ChromeDriver))))
         else
           (case get_chrome_options 0 [''headless''] of
              Inl e \<Rightarrow> Inl e
            | Inr opts \<Rightarrow>
                (case webdriver_Chrome env of
                   Some e \<Rightarrow> Inl e
                 | None \<Rightarrow> configure_driver env ChromeDriver)))
      else if browser = ''firefox'' then
        (case get_firefox_options 0 [] of
           Inl e \<Rightarrow> Inl e
         | Inr opts \<Rightarrow>
             (case webdriver_Firefox env of
                Some e \<Rightarrow> Inl e
              | None \<Rightarrow> configure_driver env FirefoxDriver))
      else Inl ValueError)"

text \<open>
  \<open>_initialize_driver\<close>: the handler \<open>except WebDriverException\<close> (lines 193 to 195) logs
  and re-raises; any other exception leaves the function without passing through it. The
  second component tells whether the handler ran.
\<close>

definition initialize_driver :: "string \<Rightarrow> bool \<Rightarrow> driver_env \<Rightarrow> (exn + driver) \<times> bool" where
  "initialize_driver browser use_stealth env =
     (case initialize_driver_try browser use_stealth env of
        Inl e \<Rightarrow> (Inl e, is_WebDriverException e)
      | Inr d \<Rightarrow> (Inr d, False))"

text \<open>The fields of a \<open>KOFIAScraper\<close> that the modelled methods use.\<close>

record scraper =
  scraper_driver :: driver
  downloaded_files :: "string list"

text \<open>\<open>KOFIAScraper.__init__\<close> (lines 80 to 96): the first statement creates the driver.\<close>

definition KOFIAScraper_init :: "string \<Rightarrow> bool \<Rightarrow> driver_env \<Rightarrow> exn + scraper" where
  "KOFIAScraper_init browser use_stealth env =
     (case fst (initialize_driver browser use_stealth env) of
        Inl e \<Rightarrow> Inl e
      | Inr d \<Rightarrow> Inr \<lparr>scraper_driver = d, downloaded_files = []\<rparr>)"

section \<open>scraper.py: the element resolver\<close>

text \<open>A locator is a pair (strategy, expression), as in the lists of config.py.\<close>

type_synonym locator = "string \<times> string"

type_synonym element = nat

text \<open>
  What one \<open>WebDriverWait(...).until(EC.presence_of_element_located(...))\<close> does: it returns
  the element, or it raises. The driver's answer is given per attempt pass and locator,
  so that a page may change between passes.
\<close>

datatype probe = Found element | Raises exn

type_synonym page = "nat \<Rightarrow> locator \<Rightarrow> probe"

text \<open>The classes of line 212: \<open>except (NoSuchElementException, TimeoutException,
  StaleElementReferenceException)\<close>.\<close>

fun lookup_error :: "exn \<Rightarrow> bool" where
  "lookup_error NoSuchElementException = True"
| "lookup_error TimeoutException = True"
| "lookup_error StaleElementReferenceException = True"
| "lookup_error _ = False"

text \<open>What \<open>find_element_safely\<close> does to the outside, in order: a wait on a locator in a
  pass, the sleep of line 216, the screenshot of line 221.\<close>

datatype resolver_event = Probe nat locator | RetrySleep | Screenshot string

datatype scan = Hit element | Miss | Abort exn

text \<open>The inner loop (lines 204 to 213) in attempt pass \<open>attempt\<close>: the first locator that
  is found ends the function; a lookup error moves to the next locator; any other exception
  leaves the function at once.\<close>

fun try_locators :: "page \<Rightarrow> nat \<Rightarrow> locator list \<Rightarrow> scan \<times> resolver_event list" where
  "try_locators pg attempt [] = (Miss, [])"
| "try_locators pg attempt (l # ls) =
     (case pg attempt l of
        Found e \<Rightarrow> (Hit e, [Probe attempt l])
      | Raises x \<Rightarrow>
          if lookup_error x then
            (case try_locators pg attempt ls of (r, evs) \<Rightarrow> (r, Probe attempt l # evs))
          else (Abort x, [Probe attempt l]))"

text \<open>\<open>if screenshot_name: self.capture_screenshot(screenshot_name)\<close>: \<open>None\<close> and the empty
  string are false in Python; \<open>capture_screenshot\<close> catches its own errors.\<close>

fun screenshot_if_named :: "string option \<Rightarrow> resolver_event list" where
  "screenshot_if_named None = []"
| "screenshot_if_named (Some n) = (if n = [] then [] else [Screenshot n])"

text \<open>The outer loop \<open>for attempt in range(MAX_RETRIES)\<close> over the attempts still to run. The
  \<open>return None\<close> of line 223 is reached when the loop body never ran.\<close>

fun find_element_passes ::
  "page \<Rightarrow> locator list \<Rightarrow> string option \<Rightarrow> nat list \<Rightarrow> (exn + element option) \<times> resolver_event list" where
  "find_element_passes pg locators screenshot_name [] = (Inr None, [])"
| "find_element_passes pg locators screenshot_name (attempt # rest) =
     (case try_locators pg attempt locators of
        (Hit e, evs) \<Rightarrow> (Inr (Some e), evs)
      | (Abort x, evs) \<Rightarrow> (Inl x, evs)
      | (Miss, evs) \<Rightarrow>
          if attempt < MAX_RETRIES - 1 then
            (case find_element_passes pg locators screenshot_name rest of
               (r, evs') \<Rightarrow> (r, evs @ RetrySleep # evs'))
          else (Inl NoSuchElementException, evs @ screenshot_if_named screenshot_name))"

definition find_element_safely ::
  "page \<Rightarrow> locator list \<Rightarrow> string option \<Rightarrow> (exn + element option) \<times> resolver_event list" where
  "find_element_safely pg locators screenshot_name =
     find_element_passes pg locators screenshot_name [0..<MAX_RETRIES]"

text \<open>Vocabulary for the statements about the resolver.\<close>

definition fails_on :: "page \<Rightarrow> nat \<Rightarrow> locator \<Rightarrow> bool" where
  "fails_on pg attempt l = (case pg attempt l of Found e \<Rightarrow> False | Raises x \<Rightarrow> lookup_error x)"

definition failed_pass :: "nat \<Rightarrow> locator list \<Rightarrow> resolver_event list" where
  "failed_pass attempt locators = map (Probe attempt) locators @ [RetrySleep]"

fun is_Screenshot :: "resolver_event \<Rightarrow> bool" where
  "is_Screenshot (Screenshot n) = True"
| "is_Screenshot _ = False"

text \<open>The log of the attempt passes \<open>0, ..., a - 1\<close> when each of them failed on every
  locator: each pass probes the whole list in order and then sleeps.\<close>

definition resolver_log :: "nat \<Rightarrow> locator list \<Rightarrow> resolver_event list" where
  "resolver_log a locators = concat (map (\<lambda>b. failed_pass b locators) [0..<a])"

section \<open>scraper.py: acquiring one dataset\<close>

text \<open>
  The entries of \<open>DATASET_CONFIGS\<close> (config.py, lines 167 to 278), with the fields that
  \<open>download_dataset\<close> reads. The Korean labels are written in Latin letters: \<open>jusikhyeong\<close>,
  \<open>honhaphyeongjusik\<close>, \<open>honhaphyeongchaegwon\<close>, \<open>chaegwonhyeong\<close>, \<open>MMF\<close>, \<open>honhapjasan\<close> for
  the fund types and \<open>jeonche\<close> (all), \<open>gungnae\<close> (domestic) for the regions.
\<close>

record dataset_config =
  name :: string
  fund_type_korean :: string
  region_korean :: string
  time_window_years :: nat
  output_name :: string

definition mk_config :: "string \<Rightarrow> string \<Rightarrow> string \<Rightarrow> string \<Rightarrow> dataset_config" where
  "mk_config n ft rg out =
     \<lparr>name = n, fund_type_korean = ft, region_korean = rg, time_window_years = 5,
      output_name = out\<rparr>"

definition DATASET_CONFIGS :: "dataset_config list" where
  "DATASET_CONFIGS =
     [mk_config ''RawDataEquity'' ''jusikhyeong'' ''jeonche'' ''Equity'',
      mk_config ''RawDataDomesticEquity'' ''jusikhyeong'' ''gungnae'' ''DomesticEquity'',
      mk_config ''RawDataHybridEquity'' ''honhaphyeongjusik'' ''jeonche'' ''HybridEquity'',
      mk_config ''RawDataHybridDomesticEquity'' ''honhaphyeongjusik'' ''gungnae''
        ''HybridDomesticEquity'',
      mk_config ''RawDataHybridBond'' ''honhaphyeongchaegwon'' ''jeonche'' ''HybridBond'',
      mk_config ''RawDataHybridDomesticBond'' ''honhaphyeongchaegwon'' ''gungnae''
        ''HybridDomesticBond'',
      mk_config ''RawDataBond'' ''chaegwonhyeong'' ''jeonche'' ''Bond'',
      mk_config ''RawDataDomesticBond'' ''chaegwonhyeong'' ''gungnae'' ''DomesticBond'',
      mk_config ''RawDataHybridAsset'' ''honhapjasan'' ''jeonche'' ''HybridAsset'',
      mk_config ''RawDataDomesticHybridAsset'' ''honhapjasan'' ''gungnae'' ''DomesticHybridAsset'',
      mk_config ''RawDataMoneyMarket'' ''MMF'' ''jeonche'' ''MoneyMarket'']"

text \<open>
  One attempt of \<open>download_dataset\<close> (the body of the \<open>try\<close>, lines 932 to 1742) is a fixed
  sequence of interactions with the page and the download directory. Each of them either
  completes or raises, and a raise leaves the \<open>try\<close> body at that point:
  \<^item> \<open>SetPeriod\<close>, \<open>SetFundType\<close>, \<open>SetCategory\<close>: the three calls of
    \<open>_select_from_custom_dropdown\<close> (lines 960, 1045, 1192), whose result is not read;
  \<^item> \<open>SetRegion\<close>, \<open>SetScope\<close>, \<open>SetPeriodicity\<close>: the radio groups (lines 1050 to 1181,
    1228 to 1316, 1322 to 1369), which raise a plain \<open>Exception\<close> when no control is found;
  \<^item> \<open>ClickSearch\<close>: finding and clicking the search button (lines 1386 to 1510);
  \<^item> \<open>SnapshotDir\<close>: \<open>initial_files = set(os.listdir(DOWNLOAD_DIR))\<close> (line 1564);
  \<^item> \<open>ClickExport\<close>: finding and clicking the Excel button (lines 1575 to 1690);
  \<^item> \<open>AwaitDownload\<close>: \<open>wait_for_download_completion(initial_files)\<close> (line 1696), with
    the \<open>TimeoutException\<close> of line 1742 when no path comes back;
  \<^item> \<open>RenameFile\<close>: removing a stale file, \<open>os.rename\<close> and the append to
    \<open>downloaded_files\<close> (lines 1700 to 1711).
  The steps that cannot leave the body (frame restoration, alert handling, the wait for
  result rows, screenshots) are left out.
\<close>

datatype step =
    SetPeriod | SetFundType | SetRegion | SetCategory | SetScope | SetPeriodicity
  | ClickSearch | SnapshotDir | ClickExport | AwaitDownload | RenameFile

definition attempt_steps :: "step list" where
  "attempt_steps =
     [SetPeriod, SetFundType, SetRegion, SetCategory, SetScope, SetPeriodicity,
      ClickSearch, SnapshotDir, ClickExport, AwaitDownload, RenameFile]"

text \<open>What the site does to one call of \<open>download_dataset\<close>: for each attempt and step,
  \<open>None\<close> when the step completes and \<open>Some e\<close> when it raises \<open>e\<close>.\<close>

type_synonym site = "nat \<Rightarrow> step \<Rightarrow> exn option"

text \<open>What a call of \<open>download_dataset\<close> does, in order: an attempt begins, a step
  completes or raises, the attempt's error is caught by the first handler (line 1744, with
  its screenshot) or by the second (line 1752), the sleep of line 1749.\<close>

datatype dl_event =
    AttemptStart nat
  | Done step
  | Raised step
  | CaughtWebDriver exn
  | CaughtUnexpected exn
  | RetryDelay

fun run_steps :: "(step \<Rightarrow> exn option) \<Rightarrow> step list \<Rightarrow> exn option \<times> dl_event list" where
  "run_steps oc [] = (None, [])"
| "run_steps oc (s # ss) =
     (case oc s of
        Some e \<Rightarrow> (Some e, [Raised s])
      | None \<Rightarrow> (case run_steps oc ss of (r, evs) \<Rightarrow> (r, Done s # evs)))"

definition attempt_error :: "(step \<Rightarrow> exn option) \<Rightarrow> exn option" where
  "attempt_error oc = fst (run_steps oc attempt_steps)"

text \<open>
  The loop \<open>for attempt in range(MAX_RETRIES)\<close> of \<open>download_dataset\<close> over the attempts
  still to run. A body that completes sets \<open>success = True\<close> and breaks (lines 1711, 1740).
  The first handler catches the Selenium classes and lets the loop go on, sleeping unless
  this was the last attempt; the second handler catches every other \<open>Exception\<close> and
  breaks.
\<close>

fun download_attempts ::
  "site \<Rightarrow> dataset_config \<Rightarrow> nat list \<Rightarrow> scraper \<Rightarrow> (bool \<times> dl_event list) \<times> scraper" where
  "download_attempts st config [] s = ((False, []), s)"
| "download_attempts st config (attempt # rest) s =
     (case run_steps (st attempt) attempt_steps of
        (None, steps) \<Rightarrow>
          ((True, AttemptStart attempt # steps),
           s\<lparr>downloaded_files := downloaded_files s @ [output_name config @ ''.xls'']\<rparr>)
      | (Some e, steps) \<Rightarrow>
          if is_WebDriverException e then
            (case download_attempts st config rest s of
               ((b, evs), s') \<Rightarrow>
                 ((b, AttemptStart attempt # steps @ CaughtWebDriver e #
                      (if attempt < MAX_RETRIES - 1 then [RetryDelay] else []) @ evs), s'))
          else ((False, AttemptStart attempt # steps @ [CaughtUnexpected e]), s))"

definition download_dataset ::
  "site \<Rightarrow> dataset_config \<Rightarrow> scraper \<Rightarrow> (bool \<times> dl_event list) \<times> scraper" where
  "download_dataset st config s = download_attempts st config [0..<MAX_RETRIES] s"

fun is_AttemptStart :: "dl_event \<Rightarrow> bool" where
  "is_AttemptStart (AttemptStart a) = True"
| "is_AttemptStart _ = False"

definition attempts_made :: "dl_event list \<Rightarrow> nat" where
  "attempts_made evs = length (filter is_AttemptStart evs)"

text \<open>Vocabulary for the statements about the retry loop: attempt \<open>a\<close> completes; it
  raises an error of the classes of the first handler; it raises any other error.\<close>

definition succeeds :: "site \<Rightarrow> nat \<Rightarrow> bool" where
  "succeeds st a = (attempt_error (st a) = None)"

definition retryable :: "site \<Rightarrow> nat \<Rightarrow> bool" where
  "retryable st a = (case attempt_error (st a) of None \<Rightarrow> False | Some e \<Rightarrow> is_WebDriverException e)"

definition gives_up :: "site \<Rightarrow> nat \<Rightarrow> bool" where
  "gives_up st a = (case attempt_error (st a) of None \<Rightarrow> False | Some e \<Rightarrow> \<not> is_WebDriverException e)"

text \<open>\<open>acquired st\<close>: some attempt completes and each attempt before it was retried. This is
  when \<open>download_dataset\<close> returns \<open>True\<close>.\<close>

definition acquired :: "site \<Rightarrow> bool" where
  "acquired st =
     list_ex (\<lambda>a. succeeds st a \<and> list_all (retryable st) [0..<a]) [0..<MAX_RETRIES]"

section \<open>scraper.py: the sequential session\<close>

text \<open>
  What \<open>run\<close> meets outside the program: whether \<open>navigate_to_fund_composition_query\<close>
  raises, what the site does to the call of \<open>download_dataset\<close> for the dataset of each
  number \<open>idx\<close> (from 1), and whether the driver answers \<open>current_url\<close> (line 1941) and
  \<open>quit()\<close> (line 1947).
\<close>

record run_env =
  navigate :: "exn option"
  site_of :: "nat \<Rightarrow> site"
  current_url :: "exn option"
  driver_quit :: "exn option"

datatype run_event =
    NavigationDone
  | NavigationRaised
  | Dataset nat dl_event
  | Logged string
  | FatalScreenshot
  | DriverQuit

text \<open>
  The loop \<open>for idx, config in enumerate(DATASET_CONFIGS, 1)\<close> of lines 1878 to 1893 over
  the datasets still to process: \<open>idx\<close> is the number of the next dataset, \<open>success_count\<close>
  and \<open>failure_count\<close> are the counters. Each dataset's events are tagged with its number,
  as its log lines are.
\<close>

fun download_all ::
  "(nat \<Rightarrow> site) \<Rightarrow> nat \<Rightarrow> dataset_config list \<Rightarrow> nat \<times> nat \<Rightarrow> scraper \<Rightarrow>
   ((nat \<times> nat) \<times> run_event list) \<times> scraper" where
  "download_all sites idx [] (success_count, failure_count) s =
     (((success_count, failure_count), []), s)"
| "download_all sites idx (config # rest) (success_count, failure_count) s =
     (case download_dataset (sites idx) config s of
        ((b, evs), s1) \<Rightarrow>
          (case download_all sites (Suc idx) rest
                  (if b then (Suc success_count, failure_count)
                   else (success_count, Suc failure_count)) s1 of
             ((counts, evs'), s2) \<Rightarrow> ((counts, map (Dataset idx) evs @ evs'), s2)))"

text \<open>
  The names that are bound when the final summary (lines 1915 to 1931) runs: the
  parameter \<open>self\<close> and the local variables assigned on the way there. The assignment of
  \<open>process_duration\<close> (line 1911) is commented out, and the module has no global of that
  name.
\<close>

definition run_bound_names :: "string list" where
  "run_bound_names =
     [''self'', ''start_time'', ''success_count'', ''failure_count'', ''total_datasets'',
      ''nav_start'', ''nav_duration'', ''idx'', ''config'', ''dataset_start'',
      ''dataset_duration'', ''download_duration'', ''total_duration'']"

text \<open>The \<open>logger.info\<close> calls of lines 1916 to 1931, each with the names its message reads.\<close>

definition summary_lines :: "(string \<times> string list) list" where
  "summary_lines =
     [(''===='', []),
      (''EXECUTION SUMMARY'', []),
      (''===='', []),
      (''End Time'', []),
      (''Total Execution Time'', [''total_duration'']),
      (''Navigation Time'', [''nav_duration'']),
      (''Download Time'', [''download_duration'']),
      (''Processing Time'', [''process_duration'']),
      (''Datasets Processed'', [''total_datasets'']),
      (''  - Successful'', [''success_count'']),
      (''  - Failed'', [''failure_count'']),
      (''Files Downloaded'', [''self'']),
      (''Timeseries Created'', [''self'']),
      (''===='', []),
      (''KOFIA Web Scraper completed successfully'', []),
      (''===='', [])]"

text \<open>Evaluating the messages in order: reading a name that is not bound raises
  \<open>NameError\<close>, and the lines after it do not run.\<close>

fun log_lines :: "string list \<Rightarrow> (string \<times> string list) list \<Rightarrow> exn option \<times> run_event list" where
  "log_lines bound [] = (None, [])"
| "log_lines bound ((label, reads) # rest) =
     (if list_all (\<lambda>n. n \<in> set bound) reads then
        (case log_lines bound rest of (r, evs) \<Rightarrow> (r, Logged label # evs))
      else (Some NameError, []))"

text \<open>The body of the \<open>try\<close> of \<open>run\<close> (lines 1864 to 1931): the exception that leaves it,
  if any, and the events up to there.\<close>

definition run_try ::
  "run_env \<Rightarrow> dataset_config list \<Rightarrow> scraper \<Rightarrow> (exn option \<times> run_event list) \<times> scraper" where
  "run_try env configs s =
     (case navigate env of
        Some e \<Rightarrow> ((Some e, [NavigationRaised]), s)
      | None \<Rightarrow>
          (case download_all (site_of env) 1 configs (0, 0) s of
             ((counts, evs), s') \<Rightarrow>
               (case log_lines run_bound_names summary_lines of
                  (r, logs) \<Rightarrow>
                    ((r, NavigationDone # evs @ Logged ''Download Summary'' # logs), s'))))"

text \<open>The handler \<open>except Exception\<close> (lines 1933 to 1943): its log lines read names bound
  before the \<open>try\<close>, then \<open>self.driver.current_url\<close>; an exception raised there leaves the
  handler before the screenshot.\<close>

definition run_handler :: "run_env \<Rightarrow> exn option \<times> run_event list" where
  "run_handler env =
     (case current_url env of
        Some e \<Rightarrow> (Some e, [Logged ''EXECUTION FAILED''])
      | None \<Rightarrow> (None, [Logged ''EXECUTION FAILED'', Logged ''Current URL'', FatalScreenshot]))"

text \<open>
  \<open>run\<close> (lines 1856 to 1948). The first component is the exception that reaches the
  caller, if any: one raised in the handler, or one raised by \<open>quit()\<close> in the \<open>finally\<close>
  block, which runs in every case (\<open>self.driver\<close> is the driver created by \<open>__init__\<close>).
\<close>

definition run ::
  "run_env \<Rightarrow> dataset_config list \<Rightarrow> scraper \<Rightarrow> (exn option \<times> run_event list) \<times> scraper" where
  "run env configs s =
     (case run_try env configs s of
        ((r, evs), s') \<Rightarrow>
          (case (case r of None \<Rightarrow> (None, []) | Some e \<Rightarrow> run_handler env) of
             (r2, evs2) \<Rightarrow>
               (case driver_quit env of
                  Some e \<Rightarrow> ((Some e, evs @ evs2 @ [DriverQuit]), s')
                | None \<Rightarrow> ((r2, evs @ evs2 @ [DriverQuit, Logged ''WebDriver closed.'']), s'))))"

section \<open>scraper.py: parallel sessions\<close>

text \<open>
  What one tab meets outside the program: the browser libraries when its scraper is
  constructed, whether navigation raises, what the site does to the call of
  \<open>download_dataset\<close> for the dataset at each position of its batch, and whether \<open>quit()\<close>
  raises.
\<close>

record tab_env =
  browser_libs :: driver_env
  tab_navigate :: "exn option"
  tab_site :: "nat \<Rightarrow> site"
  tab_quit :: "exn option"

text \<open>The loop of lines 1973 to 1983, and that of lines 2109 to 2119 in the retry pass: the
  datasets are downloaded one after the other with the same scraper, and each result is
  appended as a pair (success, name).\<close>

fun batch_downloads ::
  "(nat \<Rightarrow> site) \<Rightarrow> nat \<Rightarrow> dataset_config list \<Rightarrow> (bool \<times> string) list \<Rightarrow> scraper \<Rightarrow>
   (bool \<times> string) list \<times> scraper" where
  "batch_downloads sites i [] results s = (results, s)"
| "batch_downloads sites i (config # rest) results s =
     (case download_dataset (sites i) config s of
        ((success, evs), s1) \<Rightarrow>
          batch_downloads sites (Suc i) rest (results @ [(success, name config)]) s1)"

text \<open>Lines 1998 to 2000: every dataset of the batch whose name is not yet in \<open>results\<close> is
  appended as failed.\<close>

fun mark_remaining_failed ::
  "dataset_config list \<Rightarrow> (bool \<times> string) list \<Rightarrow> (bool \<times> string) list" where
  "mark_remaining_failed [] results = results"
| "mark_remaining_failed (config # rest) results =
     mark_remaining_failed rest
       (if list_ex (\<lambda>r. name config = snd r) results then results
        else results @ [(False, name config)])"

text \<open>
  \<open>download_datasets_batch\<close> (lines 1951 to 2009). The constructor and the navigation are
  inside the \<open>try\<close>; an exception there is a fatal error of the tab, whose handler marks the
  datasets failed and returns no scraper. \<open>download_dataset\<close> itself returns for every
  dataset. Without \<open>keep_alive\<close> the browser is closed and no scraper is returned.
\<close>

definition download_datasets_batch ::
  "string \<Rightarrow> bool \<Rightarrow> tab_env \<Rightarrow> dataset_config list \<Rightarrow> bool \<Rightarrow>
   (bool \<times> string) list \<times> scraper option" where
  "download_datasets_batch browser use_stealth env dataset_batch keep_alive =
     (case KOFIAScraper_init browser use_stealth (browser_libs env) of
        Inl e \<Rightarrow> (mark_remaining_failed dataset_batch [], None)
      | Inr s \<Rightarrow>
          (case tab_navigate env of
             Some e \<Rightarrow> (mark_remaining_failed dataset_batch [], None)
           | None \<Rightarrow>
               (case batch_downloads (tab_site env) 0 dataset_batch [] s of
                  (results, s') \<Rightarrow>
                    if \<not> keep_alive then
                      (case tab_quit env of
                         Some e \<Rightarrow> (mark_remaining_failed dataset_batch results, None)
                       | None \<Rightarrow> (results, None))
                    else (results, Some s'))))"

text \<open>
  What \<open>run_parallel\<close> meets: the three tabs, the order in which \<open>as_completed\<close> yields them
  (the tabs run concurrently, so any order of \<open>1, 2, 3\<close> can occur), and what the site does
  to each download of the retry pass.
\<close>

record parallel_env =
  tab_envs :: "nat \<Rightarrow> tab_env"
  completion_order :: "nat list"
  retry_site :: "nat \<Rightarrow> site"

text \<open>Lines 2022 to 2024: the slices \<open>[0:4]\<close>, \<open>[4:8]\<close> and \<open>[8:11]\<close> of the dataset list.\<close>

definition batch_of :: "dataset_config list \<Rightarrow> nat \<Rightarrow> dataset_config list" where
  "batch_of configs tab_id =
     (if tab_id = 1 then take 4 configs
      else if tab_id = 2 then take 4 (drop 4 configs)
      else take 3 (drop 8 configs))"

text \<open>Lines 2053 to 2066: the results are gathered in completion order, and a tab that
  returned a scraper is stored in \<open>active_scrapers\<close> (a dictionary, kept in insertion
  order).\<close>

fun collect_results ::
  "(nat \<Rightarrow> (bool \<times> string) list \<times> scraper option) \<Rightarrow> nat list \<Rightarrow>
   (bool \<times> string) list \<Rightarrow> (nat \<times> scraper) list \<Rightarrow>
   (bool \<times> string) list \<times> (nat \<times> scraper) list" where
  "collect_results outcome [] all_results active_scrapers = (all_results, active_scrapers)"
| "collect_results outcome (tab_id # rest) all_results active_scrapers =
     (case outcome tab_id of
        (batch_results, None) \<Rightarrow>
          collect_results outcome rest (all_results @ batch_results) active_scrapers
      | (batch_results, Some scraper) \<Rightarrow>
          collect_results outcome rest (all_results @ batch_results)
            (active_scrapers @ [(tab_id, scraper)]))"

text \<open>Lines 2087 to 2095: for each failed result, the first configuration of that name.\<close>

fun failed_datasets :: "dataset_config list \<Rightarrow> (bool \<times> string) list \<Rightarrow> dataset_config list" where
  "failed_datasets configs [] = []"
| "failed_datasets configs ((success, n) # rest) =
     (if \<not> success then
        (case find (\<lambda>config. name config = n) configs of
           Some config \<Rightarrow> config # failed_datasets configs rest
         | None \<Rightarrow> failed_datasets configs rest)
      else failed_datasets configs rest)"

text \<open>What \<open>run_parallel\<close> computes and logs: the first-pass results, the tab used for the
  retry pass and the retry results, the final counts (lines 2132 and 2133) and the names
  listed as still failed (lines 2142 to 2146).\<close>

record parallel_report =
  all_results :: "(bool \<times> string) list"
  retry_tab_id :: "nat option"
  retry_results :: "(bool \<times> string) list"
  final_tally :: "(nat \<times> int) option"
  still_failed :: "string list"

definition run_parallel ::
  "string \<Rightarrow> bool \<Rightarrow> parallel_env \<Rightarrow> dataset_config list \<Rightarrow> parallel_report" where
  "run_parallel browser use_stealth env configs =
     (case collect_results
             (\<lambda>tab_id. download_datasets_batch browser use_stealth (tab_envs env tab_id)
                          (batch_of configs tab_id) True)
             (completion_order env) [] [] of
        (results, active_scrapers) \<Rightarrow>
          let success_count = length (filter fst results);
              failure_count = length results - success_count;
              failed = failed_datasets configs results
          in
            if failure_count > 0 \<and> failed \<noteq> [] \<and> active_scrapers \<noteq> [] then
              (case hd active_scrapers of
                 (tab_id, retry_scraper) \<Rightarrow>
                   (case batch_downloads (retry_site env) 0 failed [] retry_scraper of
                      (retried, s') \<Rightarrow>
                        let retry_success_count = length (filter fst retried);
                            final_success = success_count + retry_success_count;
                            final_failure = int (length configs) - int final_success
                        in \<lparr>all_results = results, retry_tab_id = Some tab_id,
                            retry_results = retried,
                            final_tally = Some (final_success, final_failure),
                            still_failed =
                              (if final_failure > 0
                               then map snd (filter (\<lambda>r. \<not> fst r) retried) else [])\<rparr>))
            else \<lparr>all_results = results, retry_tab_id = None, retry_results = [],
                  final_tally = None, still_failed = []\<rparr>)"

section \<open>scraper.py: the download completion detector\<close>

text \<open>
  The download directory is outside the program. Time is counted in ticks of 0.2 seconds,
  the shortest sleep of \<open>wait_for_download_completion\<close>; a directory over time gives, at
  each tick, the files that \<open>os.listdir\<close> returns with their sizes. Only sleeping takes
  time. \<open>time.sleep(0.2)\<close> is one tick and \<open>time.sleep(1)\<close> is five.
\<close>

type_synonym listing = "(string \<times> nat) list"

type_synonym directory = "nat \<Rightarrow> listing"

definition listdir :: "listing \<Rightarrow> string list" where
  "listdir d = map fst d"

definition path_exists :: "listing \<Rightarrow> string \<Rightarrow> bool" where
  "path_exists d f \<longleftrightarrow> f \<in> set (map fst d)"

definition getsize :: "listing \<Rightarrow> string \<Rightarrow> nat option" where
  "getsize d f = map_of d f"

text \<open>\<open>str.endswith\<close>, and the test of line 255 for the suffixes of a download in
  progress.\<close>

definition endswith :: "string \<Rightarrow> string \<Rightarrow> bool" where
  "endswith s suf \<longleftrightarrow> length suf \<le> length s \<and> drop (length s - length suf) s = suf"

definition in_progress :: "string \<Rightarrow> bool" where
  "in_progress fname \<longleftrightarrow>
     endswith fname ''.tmp'' \<or> endswith fname ''.crdownload'' \<or> endswith fname ''.part''"

text \<open>
  The loop \<open>for _ in range(5)\<close> of lines 258 to 265 with \<open>k\<close> rounds left: each round sleeps
  one tick, breaks when the file is gone, and returns the path when the size equals the
  previous sample and is not zero. The samples taken are collected; \<open>current_size\<close> starts
  at \<open>-1\<close>.
\<close>

datatype sampling = Stable | Vanished | Exhausted

fun sample_sizes ::
  "directory \<Rightarrow> string \<Rightarrow> nat \<Rightarrow> int \<Rightarrow> nat \<Rightarrow> nat list \<Rightarrow> sampling \<times> nat \<times> nat list" where
  "sample_sizes dir f 0 current_size t samples = (Exhausted, t, samples)"
| "sample_sizes dir f (Suc k) current_size t samples =
     (case getsize (dir (Suc t)) f of
        None \<Rightarrow> (Vanished, Suc t, samples)
      | Some new_size \<Rightarrow>
          if current_size = int new_size \<and> new_size > 0
          then (Stable, Suc t, samples @ [new_size])
          else sample_sizes dir f k (int new_size) (Suc t) (samples @ [new_size]))"

text \<open>
  The loop \<open>for fname in new_files\<close> (lines 254 to 268) over the candidates still to check,
  at tick \<open>t\<close>. A name with an in-progress suffix is skipped. When the sampling of a
  candidate ends without a return, line 266 returns the path all the same if the file
  still exists. The result is the path with the samples taken of it, and the tick reached.
  (\<open>new_files\<close> is a Python set, iterated in no particular order; the candidates are
  taken in the order of the listing.)
\<close>

fun check_candidates ::
  "directory \<Rightarrow> string list \<Rightarrow> nat \<Rightarrow> (string \<times> nat list) option \<times> nat" where
  "check_candidates dir [] t = (None, t)"
| "check_candidates dir (fname # rest) t =
     (if \<not> in_progress fname then
        (case sample_sizes dir fname 5 (-1) t [] of
           (Stable, t', samples) \<Rightarrow> (Some (fname, samples), t')
         | (_, t', samples) \<Rightarrow>
             if path_exists (dir t') fname then (Some (fname, samples), t')
             else check_candidates dir rest t')
      else check_candidates dir rest t)"

lemma sample_sizes_clock: "t \<le> fst (snd (sample_sizes dir f k cur t samples))"
proof (induction k arbitrary: cur t samples)
  case 0
  show ?case by simp
next
  case (Suc k)
  show ?case
  proof (cases "getsize (dir (Suc t)) f")
    case None
    then show ?thesis by simp
  next
    case (Some n)
    have "Suc t \<le> fst (snd (sample_sizes dir f k (int n) (Suc t) (samples @ [n])))"
      by (rule Suc.IH)
    with Some show ?thesis by simp
  qed
qed

lemma check_candidates_clock: "t \<le> snd (check_candidates dir fs t)"
proof (induction fs arbitrary: t)
  case Nil
  show ?case by simp
next
  case (Cons f fs)
  obtain r t' samples where s: "sample_sizes dir f 5 (-1) t [] = (r, t', samples)"
    by (metis prod.collapse)
  have t': "t \<le> t'" using sample_sizes_clock[of t dir f 5 "-1" "[]"] s by simp
  have "t' \<le> snd (check_candidates dir fs t')" by (rule Cons.IH)
  with t' have "t \<le> snd (check_candidates dir fs t')" by simp
  moreover have "t \<le> snd (check_candidates dir fs t)" by (rule Cons.IH)
  ultimately show ?case using s t' by (cases r) (simp_all del: sample_sizes.simps)
qed

text \<open>
  The loop \<open>while time.time() - start_time < timeout\<close> (lines 251 to 269): list the
  directory, take the files that are not in \<open>initial_files\<close>, check them, and sleep one
  second when none was returned. After the loop, \<open>TimeoutException\<close> (line 271).
\<close>

function wait_loop ::
  "directory \<Rightarrow> string list \<Rightarrow> nat \<Rightarrow> nat \<Rightarrow> nat \<Rightarrow> exn + (string \<times> nat list)" where
  "wait_loop dir initial_files timeout start_time t =
     (if t - start_time < timeout then
        (case check_candidates dir
                (filter (\<lambda>f. f \<notin> set initial_files) (listdir (dir t))) t of
           (Some found, t') \<Rightarrow> Inr found
         | (None, t') \<Rightarrow> wait_loop dir initial_files timeout start_time (t' + 5))
      else Inl TimeoutException)"
  by pat_completeness auto
termination
proof (relation "measure (\<lambda>(dir, initial_files, timeout, start_time, t). start_time + timeout - t)",
    goal_cases)
  case 1
  show ?case by simp
next
  case (2 dir initial_files timeout start_time t x t')
  have "t \<le> snd (check_candidates dir (filter (\<lambda>f. f \<notin> set initial_files) (listdir (dir t))) t)"
    by (rule check_candidates_clock)
  with 2 have "t \<le> t'" by (metis snd_conv)
  with 2 show ?case by simp
qed

text \<open>\<open>DOWNLOAD_WAIT_TIMEOUT = 120\<close> seconds (config.py, line 13), in ticks.\<close>

definition DOWNLOAD_WAIT_TIMEOUT :: nat where
  "DOWNLOAD_WAIT_TIMEOUT = 600"

text \<open>\<open>wait_for_download_completion\<close>, called at tick \<open>now\<close>.\<close>

definition wait_for_download_completion ::
  "directory \<Rightarrow> string list \<Rightarrow> nat \<Rightarrow> nat \<Rightarrow> exn + (string \<times> nat list)" where
  "wait_for_download_completion dir initial_files timeout now =
     wait_loop dir initial_files timeout now now"

text \<open>Write completion as the policy has it: two consecutive samples that agree and are
  not zero.\<close>

fun stability_observed :: "nat list \<Rightarrow> bool" where
  "stability_observed (a # b # rest) = ((a = b \<and> b > 0) \<or> stability_observed (b # rest))"
| "stability_observed _ = False"

section \<open>scraper.py: choosing the radio button to click\<close>

text \<open>
  A radio control of the page, as the three selections of \<open>download_dataset\<close> read it: its
  \<open>aria-label\<close>, what \<open>is_displayed()\<close> and \<open>is_enabled()\<close> answer, and the \<open>aria-label\<close>s of
  the radios of its nearest enclosing \<open>radiogroup\<close> (\<open>None\<close> when it has none, where
  \<open>find_element\<close> raises and the \<open>except\<close> of the loop moves to the next candidate). The
  page is the list of its radio controls in document order. The labels are written in
  Latin letters: \<open>jeonche\<close> (all), \<open>gungnae\<close> (domestic), \<open>haeoe\<close> (overseas), \<open>gongmo\<close>
  (public), \<open>samo\<close> (private), \<open>wolgan\<close> (monthly), \<open>nyeongan\<close> (yearly), \<open>bungi\<close> (quarterly).
\<close>

record radio =
  aria_label :: string
  is_displayed :: bool
  is_enabled :: bool
  radiogroup :: "string list option"

text \<open>\<open>driver.find_elements(By.XPATH, "//span[@role='radio' and @aria-label='...']")\<close>.\<close>

definition find_radios :: "radio list \<Rightarrow> string \<Rightarrow> radio list" where
  "find_radios doc label = filter (\<lambda>r. aria_label r = label) doc"

definition region_terms :: "string list" where
  "region_terms = [''jeonche'', ''gungnae'', ''haeoe'', ''haeoe30'', ''haeoe60'']"

text \<open>The loop of lines 1085 to 1107 (region): a candidate that is not displayed is
  skipped; the first displayed one whose group has at least two region labels is taken.\<close>

fun region_scan :: "radio list \<Rightarrow> radio option" where
  "region_scan [] = None"
| "region_scan (r # rest) =
     (if \<not> is_displayed r then region_scan rest
      else
        (case radiogroup r of
           None \<Rightarrow> region_scan rest
         | Some sibling_labels \<Rightarrow>
             if list_ex (\<lambda>term. term \<in> set sibling_labels) region_terms \<and>
                length (filter (\<lambda>s. s \<in> set region_terms) sibling_labels) \<ge> 2
             then Some r
             else region_scan rest))"

text \<open>Lines 1078 to 1116 and 1176: the region target, with the fallback to the first
  displayed candidate; a plain \<open>Exception\<close> when there is none.\<close>

definition select_region_target :: "radio list \<Rightarrow> string \<Rightarrow> exn + radio" where
  "select_region_target doc region_label =
     (let region_radios = find_radios doc region_label in
      if region_radios \<noteq> [] then
        (case region_scan region_radios of
           Some target \<Rightarrow> Inr target
         | None \<Rightarrow>
             (case filter is_displayed region_radios of
                [] \<Rightarrow> Inl OtherException
              | target # _ \<Rightarrow> Inr target))
      else Inl OtherException)"

text \<open>The loop of lines 1235 to 1254 (public or private): the first candidate whose group
  has the label \<open>gongmo\<close> or \<open>samo\<close> and that is displayed and enabled.\<close>

fun scope_scan :: "radio list \<Rightarrow> radio option" where
  "scope_scan [] = None"
| "scope_scan (r # rest) =
     (case radiogroup r of
        None \<Rightarrow> scope_scan rest
      | Some sibling_labels \<Rightarrow>
          if ''gongmo'' \<in> set sibling_labels \<or> ''samo'' \<in> set sibling_labels then
            (if is_displayed r \<and> is_enabled r then Some r else scope_scan rest)
          else scope_scan rest)"

text \<open>Lines 1232 to 1311: the scope target; a plain \<open>Exception\<close> when there is none.\<close>

definition select_scope_target :: "radio list \<Rightarrow> exn + radio" where
  "select_scope_target doc =
     (case scope_scan (find_radios doc ''jeonche'') of
        Some target \<Rightarrow> Inr target
      | None \<Rightarrow> Inl OtherException)"

text \<open>The loop of lines 1331 to 1345 (periodicity): the first candidate whose group has the
  label \<open>nyeongan\<close> or \<open>bungi\<close>.\<close>

fun period_scan :: "radio list \<Rightarrow> radio option" where
  "period_scan [] = None"
| "period_scan (r # rest) =
     (case radiogroup r of
        None \<Rightarrow> period_scan rest
      | Some sibling_labels \<Rightarrow>
          if ''nyeongan'' \<in> set sibling_labels \<or> ''bungi'' \<in> set sibling_labels then Some r
          else period_scan rest)"

text \<open>Lines 1324 to 1364: the periodicity target, with the fallback \<open>monthly_radios[0]\<close>; a
  plain \<open>Exception\<close> when no radio has the label.\<close>

definition select_period_target :: "radio list \<Rightarrow> exn + radio" where
  "select_period_target doc =
     (case find_radios doc ''wolgan'' of
        [] \<Rightarrow> Inl OtherException
      | first # others \<Rightarrow>
          (case period_scan (first # others) of
             Some target \<Rightarrow> Inr target
           | None \<Rightarrow> Inr first))"

section \<open>scraper.py: the synthetic dropdown\<close>

text \<open>
  \<open>_select_from_custom_dropdown\<close> drives the page through the browser. The page is a state
  of some type \<open>'w\<close>, and the driver is given by what its calls do to that state: a read
  returns a value and leaves the page as it is; an action returns its result together
  with the page as it is when the next call is made (the sleeps after an action are part
  of it). One field stands for each group of calls that decides the control flow:
  \<^item> \<open>locate_button\<close>: the visible button among \<open>find_elements\<close>, else \<open>find_element_safely\<close>
    (lines 288 to 303), \<open>Some e\<close> when that raises;
  \<^item> \<open>current_value\<close>: the text of the nested \<open>cb-text-\<close> element, else the text of the
    button (lines 307 to 314), \<open>None\<close> when both reads raise;
  \<^item> \<open>aria_expanded\<close>: \<open>get_attribute('aria-expanded') == 'true'\<close> (line 325);
  \<^item> \<open>toggle_click\<close>: the script click that closes an expanded dropdown (line 331);
  \<^item> \<open>open_clicks\<close>: the three click methods of lines 340 to 357, with whether one of them
    left \<open>aria-expanded\<close> true;
  \<^item> \<open>locate_listbox\<close>: the option list in the current frame (\<open>Inr True\<close>), else in the
    root document after switching to it (\<open>Inr False\<close>), else the error of
    \<open>find_element_safely\<close> (lines 367 to 384);
  \<^item> \<open>locate_option\<close>: the search for the option, with scrolling (lines 424 to 563);
  \<^item> \<open>close_after_miss\<close>: closing the dropdown when the option was not found (lines 568
    to 575);
  \<^item> \<open>click_option\<close>: the script click on the option, else the pointer click (lines 581 to
    586);
  \<^item> \<open>switch_to_main\<close>: \<open>switch_to.frame("main")\<close> (line 595);
  \<^item> \<open>button_text\<close>: \<open>dropdown_button.text.strip()\<close> (line 601), \<open>None\<close> when it raises;
  \<^item> \<open>recover\<close>: the screenshot and the frame switches of the handler (lines 616 to 623).
\<close>

record 'w dropdown_driver =
  locate_button :: "'w \<Rightarrow> exn option"
  current_value :: "'w \<Rightarrow> string option"
  aria_expanded :: "'w \<Rightarrow> exn + bool"
  toggle_click :: "'w \<Rightarrow> exn option \<times> 'w"
  open_clicks :: "'w \<Rightarrow> bool \<times> 'w"
  locate_listbox :: "'w \<Rightarrow> (exn + bool) \<times> 'w"
  locate_option :: "string \<Rightarrow> 'w \<Rightarrow> bool \<times> 'w"
  close_after_miss :: "'w \<Rightarrow> 'w"
  click_option :: "string \<Rightarrow> 'w \<Rightarrow> exn option \<times> 'w"
  switch_to_main :: "'w \<Rightarrow> exn option \<times> 'w"
  button_text :: "'w \<Rightarrow> string option"
  recover :: "'w \<Rightarrow> 'w"

text \<open>The actions performed on the page, in order.\<close>

datatype dropdown_event =
    CloseClick | OpenClicks | ListboxLookup | OptionSearch | CloseAfterMiss | OptionClick
  | SwitchToMain | ErrorScreenshot | RetryPause

text \<open>How one pass of the loop body ends: a \<open>return\<close>, the \<open>continue\<close> of line 608, or an
  exception on its way to the handler of line 614.\<close>

datatype 'w pass_end = Return bool 'w | Continue 'w | Raise exn 'w

text \<open>Lines 598 to 612: the displayed value is read again. When it equals the target the
  function returns \<open>True\<close>; when it differs and this is not the last retry, the loop
  continues; in every other case (the value differs on the last retry, or it cannot be
  read) control reaches the \<open>return True\<close> of line 612.\<close>

definition verify_selection ::
  "'w dropdown_driver \<Rightarrow> string \<Rightarrow> nat \<Rightarrow> nat \<Rightarrow> 'w \<Rightarrow> 'w pass_end" where
  "verify_selection drv option_text retry max_retries w =
     (case button_text drv w of
        None \<Rightarrow> Return True w
      | Some v \<Rightarrow>
          if v = option_text then Return True w
          else if retry < max_retries - 1 then Continue w
          else Return True w)"

text \<open>Lines 362 to 612: from the opened dropdown to the verification.\<close>

definition choose_option ::
  "'w dropdown_driver \<Rightarrow> string \<Rightarrow> nat \<Rightarrow> nat \<Rightarrow> 'w \<Rightarrow> 'w pass_end \<times> dropdown_event list" where
  "choose_option drv option_text retry max_retries w =
     (case locate_listbox drv w of
        (Inl e, w1) \<Rightarrow> (Raise e w1, [ListboxLookup])
      | (Inr listbox_in_main_frame, w1) \<Rightarrow>
          (case locate_option drv option_text w1 of
             (False, w2) \<Rightarrow>
               (Raise OtherException (close_after_miss drv w2),
                [ListboxLookup, OptionSearch, CloseAfterMiss])
           | (True, w2) \<Rightarrow>
               (case click_option drv option_text w2 of
                  (Some e, w3) \<Rightarrow> (Raise e w3, [ListboxLookup, OptionSearch, OptionClick])
                | (None, w3) \<Rightarrow>
                    if listbox_in_main_frame then
                      (verify_selection drv option_text retry max_retries w3,
                       [ListboxLookup, OptionSearch, OptionClick])
                    else
                      (case switch_to_main drv w3 of
                         (Some e, w4) \<Rightarrow>
                           (Raise e w4, [ListboxLookup, OptionSearch, OptionClick, SwitchToMain])
                       | (None, w4) \<Rightarrow>
                           (verify_selection drv option_text retry max_retries w4,
                            [ListboxLookup, OptionSearch, OptionClick, SwitchToMain])))))"

text \<open>Lines 324 to 360: an expanded dropdown is closed first; then it is opened, and a
  plain \<open>Exception\<close> is raised when no click method opened it.\<close>

definition open_dropdown ::
  "'w dropdown_driver \<Rightarrow> string \<Rightarrow> nat \<Rightarrow> nat \<Rightarrow> 'w \<Rightarrow> 'w pass_end \<times> dropdown_event list" where
  "open_dropdown drv option_text retry max_retries w =
     (case aria_expanded drv w of
        Inl e \<Rightarrow> (Raise e w, [])
      | Inr expanded_before \<Rightarrow>
          (case (if expanded_before then toggle_click drv w else (None, w)) of
             (Some e, w1) \<Rightarrow> (Raise e w1, [CloseClick])
           | (None, w1) \<Rightarrow>
               (case open_clicks drv w1 of
                  (False, w2) \<Rightarrow>
                    (Raise OtherException w2,
                     (if expanded_before then [CloseClick] else []) @ [OpenClicks])
                | (True, w2) \<Rightarrow>
                    (case choose_option drv option_text retry max_retries w2 of
                       (end, evs) \<Rightarrow>
                         (end, (if expanded_before then [CloseClick] else []) @
                               OpenClicks # evs)))))"

text \<open>The body of the \<open>try\<close> (lines 284 to 612): the button is located, and when the value
  it displays already equals the target the function returns \<open>True\<close> at line 319, before
  any action on the page.\<close>

definition dropdown_pass ::
  "'w dropdown_driver \<Rightarrow> string \<Rightarrow> nat \<Rightarrow> nat \<Rightarrow> 'w \<Rightarrow> 'w pass_end \<times> dropdown_event list" where
  "dropdown_pass drv option_text retry max_retries w =
     (case locate_button drv w of
        Some e \<Rightarrow> (Raise e w, [])
      | None \<Rightarrow>
          if current_value drv w = Some option_text then (Return True w, [])
          else open_dropdown drv option_text retry max_retries w)"

text \<open>
  The loop \<open>for retry in range(max_retries)\<close> over the retries still to run, with the
  handler of lines 614 to 630: it recovers the frame, then sleeps and lets the loop go on,
  or re-raises on the last retry. The \<open>return False\<close> of line 632 is reached when the loop
  ends without a return.
\<close>

fun dropdown_loop ::
  "'w dropdown_driver \<Rightarrow> string \<Rightarrow> nat \<Rightarrow> nat list \<Rightarrow> 'w \<Rightarrow>
   (exn + bool) \<times> 'w \<times> dropdown_event list" where
  "dropdown_loop drv option_text max_retries [] w = (Inr False, w, [])"
| "dropdown_loop drv option_text max_retries (retry # rest) w =
     (case dropdown_pass drv option_text retry max_retries w of
        (Return b w', evs) \<Rightarrow> (Inr b, w', evs)
      | (Continue w', evs) \<Rightarrow>
          (case dropdown_loop drv option_text max_retries rest w' of
             (r, w'', evs') \<Rightarrow> (r, w'', evs @ evs'))
      | (Raise e w', evs) \<Rightarrow>
          if retry < max_retries - 1 then
            (case dropdown_loop drv option_text max_retries rest (recover drv w') of
               (r, w'', evs') \<Rightarrow> (r, w'', evs @ ErrorScreenshot # RetryPause # evs'))
          else (Inl e, recover drv w', evs @ [ErrorScreenshot]))"

definition select_from_custom_dropdown ::
  "'w dropdown_driver \<Rightarrow> string \<Rightarrow> nat \<Rightarrow> 'w \<Rightarrow> (exn + bool) \<times> 'w \<times> dropdown_event list" where
  "select_from_custom_dropdown drv option_text max_retries w =
     dropdown_loop drv option_text max_retries [0..<max_retries] w"

text \<open>
  Two pages to run the dropdown on. A page state is the displayed value and whether the
  list is open. On both pages every lookup succeeds and a click on the button opens the
  list. On \<open>working_page\<close> a click on an option displays it and closes the list; on
  \<open>stubborn_page\<close> the click closes the list and the displayed value stays as it was.
\<close>

record widget =
  shown :: string
  expanded :: bool

definition working_page :: "widget dropdown_driver" where
  "working_page =
     \<lparr>locate_button = (\<lambda>w. None),
      current_value = (\<lambda>w. Some (shown w)),
      aria_expanded = (\<lambda>w. Inr (expanded w)),
      toggle_click = (\<lambda>w. (None, w\<lparr>expanded := \<not> expanded w\<rparr>)),
      open_clicks = (\<lambda>w. (True, w\<lparr>expanded := True\<rparr>)),
      locate_listbox = (\<lambda>w. (Inr True, w)),
      locate_option = (\<lambda>t w. (True, w)),
      close_after_miss = (\<lambda>w. w\<lparr>expanded := False\<rparr>),
      click_option = (\<lambda>t w. (None, w\<lparr>shown := t, expanded := False\<rparr>)),
      switch_to_main = (\<lambda>w. (None, w)),
      button_text = (\<lambda>w. Some (shown w)),
      recover = (\<lambda>w. w)\<rparr>"


chapter \<open>Properties\<close>

section \<open>Session creation under the shipped configuration\<close>

lemma headless_kwarg_rejected: "\<not> call_binds [] 0 [''headless'']"
  by (simp add: call_binds_def)

text \<open>
  Claim C2. With the shipped configuration (\<open>BROWSER = "chrome"\<close>, \<open>USE_STEALTH = True\<close>),
  whatever the browser libraries do, constructing a \<open>KOFIAScraper\<close> raises \<open>TypeError\<close>:
  the option builder is called with the keyword \<open>headless\<close>, which its definition does not
  accept; the \<open>except WebDriverException\<close> handler of the initializer does not run, and the
  fallback builder \<open>get_chrome_options\<close> rejects the same keyword. So the sequential mode,
  which constructs the scraper outside any handler, ends there, and in parallel mode every
  tab marks its datasets failed and returns no scraper.
\<close>

theorem C2_constructor_raises_TypeError:
  "KOFIAScraper_init BROWSER USE_STEALTH env = Inl TypeError \<and>
   initialize_driver BROWSER USE_STEALTH env = (Inl TypeError, False) \<and>
   get_stealth_chrome_options 0 [''headless''] = Inl TypeError \<and>
   get_chrome_options 0 [''headless''] = Inl TypeError \<and>
   download_datasets_batch BROWSER USE_STEALTH tab dataset_batch keep_alive =
     (mark_remaining_failed dataset_batch [], None)"
  by (simp add: download_datasets_batch_def KOFIAScraper_init_def initialize_driver_def
      initialize_driver_try_def BROWSER_def USE_STEALTH_def get_stealth_chrome_options_def
      get_chrome_options_def get_stealth_chrome_options_params_def
      get_chrome_options_params_def headless_kwarg_rejected)

section \<open>The element resolver\<close>

lemma range_MAX: "[0..<MAX_RETRIES] = [0,1,2]" by code_simp

lemma try_locators_all_fail:
  "list_all (fails_on pg a) ls \<Longrightarrow> try_locators pg a ls = (Miss, map (Probe a) ls)"
  by (induction ls) (auto simp: fails_on_def split: probe.splits)

lemma try_locators_first_found:
  "list_all (fails_on pg a) pre \<Longrightarrow> pg a l = Found e \<Longrightarrow>
   try_locators pg a (pre @ l # post) = (Hit e, map (Probe a) (pre @ [l]))"
  by (induction pre) (auto simp: fails_on_def split: probe.splits)

lemma try_locators_Miss_D:
  "try_locators pg a ls = (Miss, evs) \<Longrightarrow> list_all (fails_on pg a) ls"
proof (induction ls arbitrary: evs)
  case Nil
  show ?case by simp
next
  case (Cons l ls)
  obtain r evs' where t: "try_locators pg a ls = (r, evs')" by (cases "try_locators pg a ls")
  from Cons.prems t have "fails_on pg a l \<and> r = Miss"
    by (auto simp: fails_on_def split: probe.splits if_splits)
  with Cons.IH[of evs'] t show ?case by simp
qed

lemma try_locators_Hit_D:
  "try_locators pg a ls = (Hit e, evs) \<Longrightarrow>
   \<exists>pre l post. ls = pre @ l # post \<and> list_all (fails_on pg a) pre \<and> pg a l = Found e"
proof (induction ls arbitrary: evs)
  case Nil
  then show ?case by simp
next
  case (Cons x xs)
  obtain r evs' where t: "try_locators pg a xs = (r, evs')" by (cases "try_locators pg a xs")
  show ?case
  proof (cases "pg a x")
    case (Found e')
    with Cons.prems have "e' = e" by simp
    with Found have "x # xs = [] @ x # xs \<and> list_all (fails_on pg a) [] \<and> pg a x = Found e" by simp
    then show ?thesis by blast
  next
    case (Raises ex)
    with Cons.prems t have le: "lookup_error ex" and r: "r = Hit e"
      by (auto split: if_splits)
    from Raises le have fx: "fails_on pg a x" by (simp add: fails_on_def)
    from Cons.IH[of evs'] t r obtain pre l post where
      h: "xs = pre @ l # post" "list_all (fails_on pg a) pre" "pg a l = Found e" by auto
    from h fx have "x # xs = (x # pre) @ l # post \<and> list_all (fails_on pg a) (x # pre) \<and> pg a l = Found e" by simp
    then show ?thesis by blast
  qed
qed

lemma try_locators_Abort_D:
  "try_locators pg a ls = (Abort x, evs) \<Longrightarrow>
   \<not> lookup_error x \<and> (\<exists>l \<in> set ls. pg a l = Raises x)"
proof (induction ls arbitrary: evs)
  case Nil
  then show ?case by simp
next
  case (Cons l ls)
  obtain r evs' where t: "try_locators pg a ls = (r, evs')" by (cases "try_locators pg a ls")
  show ?case
  proof (cases "pg a l")
    case (Found e')
    with Cons.prems show ?thesis by simp
  next
    case (Raises ex)
    show ?thesis
    proof (cases "lookup_error ex")
      case True
      with Raises Cons.prems t have "r = Abort x" by simp
      with Cons.IH[of evs'] t show ?thesis by simp
    next
      case False
      with Raises Cons.prems have "ex = x" by simp
      with False Raises show ?thesis by simp
    qed
  qed
qed


lemma pass_cases:
  obtains (allfail) "list_all (fails_on pg a) ls" "try_locators pg a ls = (Miss, map (Probe a) ls)"
  | (found) pre l post e where "ls = pre @ l # post" "list_all (fails_on pg a) pre" "pg a l = Found e"
      "try_locators pg a ls = (Hit e, map (Probe a) (pre @ [l]))"
  | (abort) x evs where "try_locators pg a ls = (Abort x, evs)" "\<not> lookup_error x"
      "\<not> list_all (fails_on pg a) ls"
proof -
  obtain r evs where t: "try_locators pg a ls = (r, evs)" by (cases "try_locators pg a ls")
  show thesis
  proof (cases r)
    case Miss
    with t have "list_all (fails_on pg a) ls" by (simp add: try_locators_Miss_D)
    then show thesis using allfail try_locators_all_fail by blast
  next
    case (Hit e)
    with t obtain pre l post where
      h: "ls = pre @ l # post" "list_all (fails_on pg a) pre" "pg a l = Found e"
      using try_locators_Hit_D by blast
    then show thesis using found try_locators_first_found by blast
  next
    case (Abort x)
    with t have a: "\<not> lookup_error x" and "\<exists>l \<in> set ls. pg a l = Raises x"
      using try_locators_Abort_D by blast+
    then obtain l where "l \<in> set ls" "\<not> fails_on pg a l" by (auto simp: fails_on_def)
    then have "\<not> list_all (fails_on pg a) ls" by (auto simp: list_all_iff)
    with t Abort a show thesis using abort by blast
  qed
qed

lemma found_not_all_fail:
  "ls = pre @ l # post \<Longrightarrow> pg a l = Found e \<Longrightarrow> \<not> list_all (fails_on pg a) ls"
  by (simp add: fails_on_def)

lemma first_found_unique:
  assumes "ls = pre @ l # post" "list_all (fails_on pg a) pre" "pg a l = Found e"
    and "ls = pre' @ l' # post'" "list_all (fails_on pg a) pre'" "pg a l' = Found e'"
  shows "e' = e \<and> pre' = pre \<and> l' = l"
proof -
  have "try_locators pg a ls = (Hit e, map (Probe a) (pre @ [l]))"
    using assms(1-3) try_locators_first_found by blast
  moreover have "try_locators pg a ls = (Hit e', map (Probe a) (pre' @ [l']))"
    using assms(4-6) try_locators_first_found by blast
  ultimately have "e' = e" and m: "map (Probe a) (pre' @ [l']) = map (Probe a) (pre @ [l])" by auto
  have "inj (Probe a)" by (auto simp: inj_on_def)
  with m have "pre' @ [l'] = pre @ [l]" using inj_map_eq_map by blast
  with \<open>e' = e\<close> show ?thesis by simp
qed



lemma resolver_log_simps:
  "resolver_log 0 ls = []"
  "resolver_log (Suc 0) ls = failed_pass 0 ls"
  "resolver_log 2 ls = failed_pass 0 ls @ failed_pass 1 ls"
proof -
  have "[0..<2] = [0, Suc 0]" by code_simp
  then show "resolver_log 2 ls = failed_pass 0 ls @ failed_pass 1 ls"
    by (simp add: resolver_log_def)
qed (simp_all add: resolver_log_def)

lemma below_MAX_RETRIES: "a < MAX_RETRIES \<longleftrightarrow> a = 0 \<or> a = 1 \<or> a = 2"
  by (auto simp: MAX_RETRIES_def)

lemma find_element_safely_unfold:
  "find_element_safely pg ls shot = find_element_passes pg ls shot [0, 1, 2]"
  by (simp add: find_element_safely_def range_MAX)

lemma resolver_outcome_cases:
  obtains
    (notfound) "\<forall>a<MAX_RETRIES. list_all (fails_on pg a) ls"
      "find_element_safely pg ls shot =
         (Inl NoSuchElementException,
          resolver_log (MAX_RETRIES - 1) ls @ map (Probe (MAX_RETRIES - 1)) ls @ screenshot_if_named shot)"
  | (hit) a pre l post e where "a < MAX_RETRIES" "\<forall>b<a. list_all (fails_on pg b) ls"
      "ls = pre @ l # post" "list_all (fails_on pg a) pre" "pg a l = Found e"
      "find_element_safely pg ls shot = (Inr (Some e), resolver_log a ls @ map (Probe a) (pre @ [l]))"
  | (abort) a x evs where "a < MAX_RETRIES" "\<forall>b<a. list_all (fails_on pg b) ls"
      "try_locators pg a ls = (Abort x, evs)" "\<not> lookup_error x" "\<not> list_all (fails_on pg a) ls"
      "find_element_safely pg ls shot = (Inl x, resolver_log a ls @ evs)"
proof (cases rule: pass_cases[of pg 0 ls])
  case (found pre l post e)
  have "find_element_safely pg ls shot = (Inr (Some e), resolver_log 0 ls @ map (Probe 0) (pre @ [l]))"
    using found(4) by (simp add: find_element_safely_unfold resolver_log_simps)
  with found show thesis using hit[of 0 pre l post e] by (simp add: below_MAX_RETRIES)
next
  case (abort x evs)
  have "find_element_safely pg ls shot = (Inl x, resolver_log 0 ls @ evs)"
    using abort(1) by (simp add: find_element_safely_unfold resolver_log_simps)
  with abort show thesis using that(3)[of 0 x evs] by (simp add: below_MAX_RETRIES)
next
  case allfail
  note f0 = allfail
  show thesis
  proof (cases rule: pass_cases[of pg 1 ls])
    case (found pre l post e)
    have "find_element_safely pg ls shot = (Inr (Some e), resolver_log 1 ls @ map (Probe 1) (pre @ [l]))"
      using f0(2) found(4)
      by (simp add: find_element_safely_unfold resolver_log_simps MAX_RETRIES_def failed_pass_def)
    with found f0(1) show thesis using hit[of 1 pre l post e] by (simp add: below_MAX_RETRIES)
  next
    case (abort x evs)
    have "find_element_safely pg ls shot = (Inl x, resolver_log 1 ls @ evs)"
      using f0(2) abort(1)
      by (simp add: find_element_safely_unfold resolver_log_simps MAX_RETRIES_def failed_pass_def)
    with abort f0(1) show thesis using that(3)[of 1 x evs] by (simp add: below_MAX_RETRIES)
  next
    case allfail
    note f1 = allfail
    have below2: "\<forall>b<2. list_all (fails_on pg b) ls"
      using f0(1) f1(1) by (auto simp: less_Suc_eq numeral_2_eq_2)
    show thesis
    proof (cases rule: pass_cases[of pg 2 ls])
      case (found pre l post e)
      have "find_element_safely pg ls shot = (Inr (Some e), resolver_log 2 ls @ map (Probe 2) (pre @ [l]))"
        using f0(2) f1(2) found(4)
        by (simp add: find_element_safely_unfold resolver_log_simps MAX_RETRIES_def failed_pass_def)
      moreover note below2
      ultimately show thesis using found hit[of 2 pre l post e] by (simp add: below_MAX_RETRIES)
    next
      case (abort x evs)
      have "find_element_safely pg ls shot = (Inl x, resolver_log 2 ls @ evs)"
        using f0(2) f1(2) abort(1)
        by (simp add: find_element_safely_unfold resolver_log_simps MAX_RETRIES_def failed_pass_def)
      moreover note below2
      ultimately show thesis using abort that(3)[of 2 x evs] by (simp add: below_MAX_RETRIES)
    next
      case allfail
      have "find_element_safely pg ls shot =
         (Inl NoSuchElementException, resolver_log 2 ls @ map (Probe 2) ls @ screenshot_if_named shot)"
        using f0(2) f1(2) allfail(2)
        by (simp add: find_element_safely_unfold resolver_log_simps MAX_RETRIES_def failed_pass_def)
      moreover have "\<forall>a<MAX_RETRIES. list_all (fails_on pg a) ls"
        using f0(1) f1(1) allfail(1) by (auto simp: below_MAX_RETRIES)
      ultimately show thesis using notfound by (simp add: MAX_RETRIES_def)
    qed
  qed
qed


text \<open>
  Claim C3, as the code has it. Within a pass the locators are tried in list order, and
  the first one that is found ends the call: the log holds the earlier passes, each over the
  whole list, then the locators up to the one found, and no later one. The call raises
  \<open>NoSuchElementException\<close> itself exactly when every locator ended in a lookup error
  (\<open>NoSuchElementException\<close>, \<open>TimeoutException\<close>, \<open>StaleElementReferenceException\<close>) on each
  of the \<open>MAX_RETRIES\<close> passes; it has then slept between the passes, and it has taken a
  screenshot before raising only when the caller passed a non-empty \<open>screenshot_name\<close>. It
  never returns \<open>None\<close>.
\<close>

theorem C3_resolver_first_match_or_not_found:
  "find_element_safely pg locators shot = (r, evs) \<Longrightarrow>
   (r = Inl NoSuchElementException \<longleftrightarrow>
      (\<forall>a<MAX_RETRIES. list_all (fails_on pg a) locators)) \<and>
   (r = Inl NoSuchElementException \<longrightarrow>
      evs = resolver_log (MAX_RETRIES - 1) locators @ map (Probe (MAX_RETRIES - 1)) locators @
            screenshot_if_named shot) \<and>
   (r = Inr (Some e) \<longleftrightarrow>
      (\<exists>a pre l post. a < MAX_RETRIES \<and> (\<forall>b<a. list_all (fails_on pg b) locators) \<and>
         locators = pre @ l # post \<and> list_all (fails_on pg a) pre \<and> pg a l = Found e)) \<and>
   (\<forall>a pre l post. a < MAX_RETRIES \<and> (\<forall>b<a. list_all (fails_on pg b) locators) \<and>
         locators = pre @ l # post \<and> list_all (fails_on pg a) pre \<and> pg a l = Found e' \<longrightarrow>
         r = Inr (Some e') \<and> evs = resolver_log a locators @ map (Probe a) (pre @ [l])) \<and>
   r \<noteq> Inr None"
proof -
  assume run: "find_element_safely pg locators shot = (r, evs)"
  define firsthit where "firsthit a pre l post x \<longleftrightarrow>
     a < MAX_RETRIES \<and> (\<forall>b<a. list_all (fails_on pg b) locators) \<and>
     locators = pre @ l # post \<and> list_all (fails_on pg a) pre \<and> pg a l = Found x" for a pre l post x
  have hit_fail: "\<not> list_all (fails_on pg a) locators" if "firsthit a pre l post x" for a pre l post x
    using that found_not_all_fail unfolding firsthit_def by blast
  have hit_same: "a' = a \<and> x' = x \<and> pre' = pre \<and> l' = l"
    if h: "firsthit a pre l post x" and h': "firsthit a' pre' l' post' x'" for a pre l post x a' pre' l' post' x'
  proof -
    have "\<not> a' < a" using h h' hit_fail unfolding firsthit_def by blast
    moreover have "\<not> a < a'" using h h' hit_fail unfolding firsthit_def by blast
    ultimately have "a' = a" by simp
    with h h' show ?thesis using first_found_unique unfolding firsthit_def by blast
  qed
  have goal: "(r = Inl NoSuchElementException \<longleftrightarrow>
      (\<forall>a<MAX_RETRIES. list_all (fails_on pg a) locators)) \<and>
   (r = Inl NoSuchElementException \<longrightarrow>
      evs = resolver_log (MAX_RETRIES - 1) locators @ map (Probe (MAX_RETRIES - 1)) locators @
            screenshot_if_named shot) \<and>
   (r = Inr (Some e) \<longleftrightarrow> (\<exists>a pre l post. firsthit a pre l post e)) \<and>
   (\<forall>a pre l post. firsthit a pre l post e' \<longrightarrow>
         r = Inr (Some e') \<and> evs = resolver_log a locators @ map (Probe a) (pre @ [l])) \<and>
   r \<noteq> Inr None"
  proof (cases rule: resolver_outcome_cases[of pg locators shot])
    case notfound
    with run have r: "r = Inl NoSuchElementException"
      and evs: "evs = resolver_log (MAX_RETRIES - 1) locators @ map (Probe (MAX_RETRIES - 1)) locators @
            screenshot_if_named shot" by simp_all
    have nohit: "\<not> firsthit a pre l post x" for a pre l post x
      using notfound(1) hit_fail[of a pre l post x] unfolding firsthit_def by blast
    show ?thesis using r evs notfound(1) nohit by simp
  next
    case (hit a pre l post x)
    with run have r: "r = Inr (Some x)"
      and evs: "evs = resolver_log a locators @ map (Probe a) (pre @ [l])" by simp_all
    have fh: "firsthit a pre l post x" using hit unfolding firsthit_def by blast
    have notall: "\<not> (\<forall>a<MAX_RETRIES. list_all (fails_on pg a) locators)"
      using hit_fail[OF fh] hit(1) by blast
    have c3: "r = Inr (Some e) \<longleftrightarrow> (\<exists>a pre l post. firsthit a pre l post e)"
      using r fh hit_same[OF fh] by blast
    have c4: "\<forall>a pre l post. firsthit a pre l post e' \<longrightarrow>
         r = Inr (Some e') \<and> evs = resolver_log a locators @ map (Probe a) (pre @ [l])"
      using r evs hit_same[OF fh] by blast
    show ?thesis using r notall c3 c4 by simp
  next
    case (abort a x evs')
    with run have r: "r = Inl x" by simp
    from abort(4) have x: "x \<noteq> NoSuchElementException" by auto
    have notall: "\<not> (\<forall>a<MAX_RETRIES. list_all (fails_on pg a) locators)"
      using abort(1,5) by blast
    have nohit: "\<not> firsthit a' pre l post y" for a' pre l post y
    proof
      assume h: "firsthit a' pre l post y"
      have "\<not> a' < a" using h abort(2) hit_fail by blast
      moreover have "\<not> a < a'" using h abort(5) unfolding firsthit_def by blast
      ultimately have "a' = a" by simp
      with h have "try_locators pg a locators = (Hit y, map (Probe a) (pre @ [l]))"
        using try_locators_first_found unfolding firsthit_def by blast
      with abort(3) show False by simp
    qed
    show ?thesis using r x notall nohit by simp
  qed
  then show ?thesis unfolding firsthit_def by blast
qed


text \<open>A page where only the second locator matches, and only on the third pass.\<close>

theorem C3_resolver_witness:
  "find_element_safely
     (\<lambda>a l. if a = 2 \<and> l = (''id'', ''b'') then Found 7 else Raises TimeoutException)
     [(''xpath'', ''//a''), (''id'', ''b''), (''id'', ''c'')] (Some ''shot'') =
   (Inr (Some 7),
    [Probe 0 (''xpath'', ''//a''), Probe 0 (''id'', ''b''), Probe 0 (''id'', ''c''), RetrySleep,
     Probe 1 (''xpath'', ''//a''), Probe 1 (''id'', ''b''), Probe 1 (''id'', ''c''), RetrySleep,
     Probe 2 (''xpath'', ''//a''), Probe 2 (''id'', ''b'')]) \<and>
   (\<exists>a pre l post. a < MAX_RETRIES \<and>
      [(''xpath'', ''//a''), (''id'', ''b''), (''id'', ''c'')] = pre @ l # post \<and>
      (if a = 2 \<and> l = (''id'', ''b'') then Found 7 else Raises TimeoutException) = Found 7)"
proof -
  let ?pg = "\<lambda>(a::nat) (l::locator). if a = 2 \<and> l = (''id'', ''b'') then Found 7 else Raises TimeoutException"
  let ?ls = "[(''xpath'', ''//a''), (''id'', ''b''), (''id'', ''c'')]"
  let ?log = "[Probe 0 (''xpath'', ''//a''), Probe 0 (''id'', ''b''), Probe 0 (''id'', ''c''), RetrySleep,
     Probe 1 (''xpath'', ''//a''), Probe 1 (''id'', ''b''), Probe 1 (''id'', ''c''), RetrySleep,
     Probe 2 (''xpath'', ''//a''), Probe 2 (''id'', ''b'')]"
  have run: "find_element_safely ?pg ?ls (Some ''shot'') = (Inr (Some 7), ?log)"
    by code_simp
  from C3_resolver_first_match_or_not_found[OF run, of 7 7]
  have "\<exists>a pre l post. a < MAX_RETRIES \<and> (\<forall>b<a. list_all (fails_on ?pg b) ?ls) \<and>
         ?ls = pre @ l # post \<and> list_all (fails_on ?pg a) pre \<and> ?pg a l = Found 7"
    by blast
  then have "\<exists>a pre l post. a < MAX_RETRIES \<and> ?ls = pre @ l # post \<and> ?pg a l = Found 7"
    by blast
  with run show ?thesis by blast
qed

text \<open>
  The claim as the specification states it has a screenshot before every such raise. With
  the default \<open>screenshot_name=None\<close> the resolver raises after three passes and takes none.
\<close>

theorem C3_screenshot_counterexample:
  "find_element_safely (\<lambda>a l. Raises TimeoutException) [(''xpath'', ''//a'')] None =
     (Inl NoSuchElementException,
      [Probe 0 (''xpath'', ''//a''), RetrySleep, Probe 1 (''xpath'', ''//a''), RetrySleep,
       Probe 2 (''xpath'', ''//a'')]) \<and>
   \<not> list_ex is_Screenshot
       (snd (find_element_safely (\<lambda>a l. Raises TimeoutException) [(''xpath'', ''//a'')] None))"
  by code_simp

section \<open>Acquiring one dataset: the retry loop\<close>

lemma attempt_error_eq:
  "run_steps oc attempt_steps = (r, evs) \<Longrightarrow> attempt_error oc = r"
  by (simp add: attempt_error_def)

lemma run_steps_no_start: "\<not> list_ex is_AttemptStart (snd (run_steps oc ss))"
  by (induction ss) (auto split: option.splits prod.splits)

lemma filter_start_steps: "filter is_AttemptStart (snd (run_steps oc ss)) = []"
  using run_steps_no_start[of oc ss] by (simp add: list_ex_iff filter_empty_conv)

lemma attempt_trichotomy:
  obtains (ok) "succeeds st a" "\<not> retryable st a" "\<not> gives_up st a"
  | (retry) "retryable st a" "\<not> succeeds st a" "\<not> gives_up st a"
  | (giveup) "gives_up st a" "\<not> succeeds st a" "\<not> retryable st a"
  by (cases "attempt_error (st a)") (auto simp: succeeds_def retryable_def gives_up_def)

lemma download_attempts_result:
  "fst (fst (download_attempts st cfg as s)) \<longleftrightarrow>
     (\<exists>pre a post. as = pre @ a # post \<and> list_all (retryable st) pre \<and> succeeds st a)"
proof (induction as)
  case Nil
  show ?case by simp
next
  case (Cons a as)
  obtain r evs where t: "run_steps (st a) attempt_steps = (r, evs)" by (cases "run_steps (st a) attempt_steps")
  then have ae: "attempt_error (st a) = r" by (rule attempt_error_eq)
  show ?case
  proof (cases rule: attempt_trichotomy[of st a])
    case ok
    then have "r = None" using ae by (simp add: succeeds_def)
    with t have "fst (fst (download_attempts st cfg (a # as) s))" by simp
    moreover have "a # as = [] @ a # as \<and> list_all (retryable st) [] \<and> succeeds st a" using ok by simp
    ultimately show ?thesis by blast
  next
    case retry
    then obtain e where e: "r = Some e" "is_WebDriverException e"
      using ae by (auto simp: retryable_def split: option.splits)
    with t have "fst (fst (download_attempts st cfg (a # as) s)) = fst (fst (download_attempts st cfg as s))"
      by (simp split: prod.splits)
    also have "\<dots> \<longleftrightarrow> (\<exists>pre b post. as = pre @ b # post \<and> list_all (retryable st) pre \<and> succeeds st b)"
      by (rule Cons.IH)
    also have "\<dots> \<longleftrightarrow> (\<exists>pre b post. a # as = pre @ b # post \<and> list_all (retryable st) pre \<and> succeeds st b)"
    proof
      assume "\<exists>pre b post. as = pre @ b # post \<and> list_all (retryable st) pre \<and> succeeds st b"
      then obtain pre b post where "as = pre @ b # post" "list_all (retryable st) pre" "succeeds st b" by blast
      with retry have "a # as = (a # pre) @ b # post \<and> list_all (retryable st) (a # pre) \<and> succeeds st b" by simp
      then show "\<exists>pre b post. a # as = pre @ b # post \<and> list_all (retryable st) pre \<and> succeeds st b" by blast
    next
      assume "\<exists>pre b post. a # as = pre @ b # post \<and> list_all (retryable st) pre \<and> succeeds st b"
      then obtain pre b post where h: "a # as = pre @ b # post" "list_all (retryable st) pre" "succeeds st b" by blast
      from h(1,3) retry obtain ps where "pre = a # ps" by (cases pre) auto
      with h have "as = ps @ b # post \<and> list_all (retryable st) ps \<and> succeeds st b" by simp
      then show "\<exists>pre b post. as = pre @ b # post \<and> list_all (retryable st) pre \<and> succeeds st b" by blast
    qed
    finally show ?thesis .
  next
    case giveup
    then obtain e where e: "r = Some e" "\<not> is_WebDriverException e"
      using ae by (auto simp: gives_up_def split: option.splits)
    with t have f: "\<not> fst (fst (download_attempts st cfg (a # as) s))" by simp
    have "\<not> (\<exists>pre b post. a # as = pre @ b # post \<and> list_all (retryable st) pre \<and> succeeds st b)"
    proof
      assume "\<exists>pre b post. a # as = pre @ b # post \<and> list_all (retryable st) pre \<and> succeeds st b"
      then obtain pre b post where h: "a # as = pre @ b # post" "list_all (retryable st) pre" "succeeds st b" by blast
      show False
      proof (cases pre)
        case Nil
        with h giveup show False by simp
      next
        case (Cons p ps)
        with h giveup show False by simp
      qed
    qed
    with f show ?thesis by blast
  qed
qed

lemma download_attempts_bound:
  "attempts_made (snd (fst (download_attempts st cfg as s))) \<le> length as"
proof (induction as)
  case Nil
  show ?case by (simp add: attempts_made_def)
next
  case (Cons a as)
  obtain r evs where t: "run_steps (st a) attempt_steps = (r, evs)" by (cases "run_steps (st a) attempt_steps")
  have f: "filter is_AttemptStart evs = []" using filter_start_steps[of "st a" attempt_steps] t by simp
  obtain b evs' s' where d: "download_attempts st cfg as s = ((b, evs'), s')"
    by (metis prod.collapse)
  with Cons.IH have ih: "length (filter is_AttemptStart evs') \<le> length as" by (simp add: attempts_made_def)
  show ?case using t f d ih
    by (cases r) (simp_all add: attempts_made_def)
qed


lemma download_attempts_files:
  "download_attempts st cfg as s = ((b, evs), s') \<Longrightarrow>
   s' = (if b then s\<lparr>downloaded_files := downloaded_files s @ [output_name cfg @ ''.xls'']\<rparr> else s)"
proof (induction as arbitrary: b evs s')
  case Nil
  then show ?case by auto
next
  case (Cons a as)
  obtain r evs1 where t: "run_steps (st a) attempt_steps = (r, evs1)" by (cases "run_steps (st a) attempt_steps")
  obtain b2 evs2 s2 where d: "download_attempts st cfg as s = ((b2, evs2), s2)"
    by (metis prod.collapse)
  show ?case
  proof (cases r)
    case None
    with t Cons.prems show ?thesis by auto
  next
    case (Some e)
    show ?thesis
    proof (cases "is_WebDriverException e")
      case True
      with Some t d Cons.prems have "b = b2" "s' = s2" by auto
      with Cons.IH[OF d] show ?thesis by simp
    next
      case False
      with Some t Cons.prems show ?thesis by auto
    qed
  qed
qed

lemma download_attempts_count_stop:
  "list_all (retryable st) pre \<Longrightarrow> succeeds st a \<or> gives_up st a \<Longrightarrow>
   attempts_made (snd (fst (download_attempts st cfg (pre @ a # post) s))) = Suc (length pre)"
proof (induction pre)
  case Nil
  obtain r evs where t: "run_steps (st a) attempt_steps = (r, evs)" by (cases "run_steps (st a) attempt_steps")
  have f: "filter is_AttemptStart evs = []" using filter_start_steps[of "st a" attempt_steps] t by simp
  from t have ae: "attempt_error (st a) = r" by (rule attempt_error_eq)
  from Nil(2) show ?case
  proof
    assume "succeeds st a"
    with ae have "r = None" by (simp add: succeeds_def)
    with t f show ?thesis by (simp add: attempts_made_def)
  next
    assume "gives_up st a"
    with ae obtain e where "r = Some e" "\<not> is_WebDriverException e"
      by (auto simp: gives_up_def split: option.splits)
    with t f show ?thesis by (simp add: attempts_made_def)
  qed
next
  case (Cons p ps)
  obtain r evs where t: "run_steps (st p) attempt_steps = (r, evs)" by (cases "run_steps (st p) attempt_steps")
  have f: "filter is_AttemptStart evs = []" using filter_start_steps[of "st p" attempt_steps] t by simp
  from t have ae: "attempt_error (st p) = r" by (rule attempt_error_eq)
  from Cons.prems(1) have "retryable st p" by simp
  with ae obtain e where e: "r = Some e" "is_WebDriverException e"
    by (auto simp: retryable_def split: option.splits)
  obtain b2 evs2 s2 where d: "download_attempts st cfg (ps @ a # post) s = ((b2, evs2), s2)"
    by (metis prod.collapse)
  from Cons.IH Cons.prems d have "length (filter is_AttemptStart evs2) = Suc (length ps)"
    by (simp add: attempts_made_def)
  with t f e d show ?case by (simp add: attempts_made_def)
qed

lemma download_attempts_count_all:
  "list_all (retryable st) as \<Longrightarrow>
   attempts_made (snd (fst (download_attempts st cfg as s))) = length as"
proof (induction as)
  case Nil
  show ?case by (simp add: attempts_made_def)
next
  case (Cons p ps)
  obtain r evs where t: "run_steps (st p) attempt_steps = (r, evs)" by (cases "run_steps (st p) attempt_steps")
  have f: "filter is_AttemptStart evs = []" using filter_start_steps[of "st p" attempt_steps] t by simp
  from t have ae: "attempt_error (st p) = r" by (rule attempt_error_eq)
  from Cons.prems(1) have "retryable st p" by simp
  with ae obtain e where e: "r = Some e" "is_WebDriverException e"
    by (auto simp: retryable_def split: option.splits)
  obtain b2 evs2 s2 where d: "download_attempts st cfg ps s = ((b2, evs2), s2)"
    by (metis prod.collapse)
  from Cons.IH Cons.prems d have "length (filter is_AttemptStart evs2) = length ps"
    by (simp add: attempts_made_def)
  with t f e d show ?case by (simp add: attempts_made_def)
qed

lemma upt_split_at:
  assumes "a < n"
  shows "[0..<n] = [0..<a] @ a # [Suc a..<n]"
proof -
  have "[0..<a + (n - a)] = [0..<a] @ [a..<a + (n - a)]" by (rule upt_add_eq_append) simp
  moreover have "a + (n - a) = n" using assms by simp
  ultimately have "[0..<n] = [0..<a] @ [a..<n]" by simp
  moreover have "[a..<n] = a # [Suc a..<n]" using assms by (rule upt_conv_Cons)
  ultimately show ?thesis by simp
qed

lemma upt_split_D:
  assumes "[0..<n] = pre @ a # post"
  shows "a < n \<and> pre = [0..<a]"
proof -
  have "length [0..<n] = length (pre @ a # post)" using assms by simp
  then have len: "length pre < n" by simp
  have "[0..<n] ! length pre = a" using assms by simp
  with len have a: "a = length pre" by simp
  have "take (length pre) [0..<n] = pre" using assms by simp
  then have "pre = [0..<length pre]" using len by (simp add: take_upt)
  with a len show ?thesis by simp
qed

lemma first_success_upt:
  "(\<exists>pre a post. [0..<n] = pre @ a # post \<and> list_all (retryable st) pre \<and> succeeds st a) \<longleftrightarrow>
   (\<exists>a<n. succeeds st a \<and> (\<forall>k<a. retryable st k))"
proof
  assume "\<exists>pre a post. [0..<n] = pre @ a # post \<and> list_all (retryable st) pre \<and> succeeds st a"
  then obtain pre a post where h: "[0..<n] = pre @ a # post" "list_all (retryable st) pre" "succeeds st a"
    by blast
  from upt_split_D[OF h(1)] have "a < n" "pre = [0..<a]" by simp_all
  with h show "\<exists>a<n. succeeds st a \<and> (\<forall>k<a. retryable st k)" by (auto simp: list_all_iff)
next
  assume "\<exists>a<n. succeeds st a \<and> (\<forall>k<a. retryable st k)"
  then obtain a where h: "a < n" "succeeds st a" "\<forall>k<a. retryable st k" by blast
  then have "[0..<n] = [0..<a] @ a # [Suc a..<n] \<and> list_all (retryable st) [0..<a] \<and> succeeds st a"
    using upt_split_at by (simp add: list_all_iff)
  then show "\<exists>pre a post. [0..<n] = pre @ a # post \<and> list_all (retryable st) pre \<and> succeeds st a"
    by blast
qed

text \<open>
  Claim C1, as the code has it. \<open>download_dataset\<close> returns a boolean for every behaviour
  of the site (no exception of an attempt leaves it) and makes at most \<open>MAX_RETRIES\<close>
  attempts. An attempt that raises one of the Selenium classes (\<open>WebDriverException\<close> and
  its subclasses) is followed by the next attempt; an attempt that raises any other
  exception ends the call at once with \<open>False\<close>. So the result is \<open>True\<close> exactly when
  some attempt completes and every attempt before it raised a Selenium error; Selenium
  errors on attempts 1 and 2 and success on attempt 3 give \<open>True\<close> after exactly 3 attempts;
  Selenium errors on all \<open>MAX_RETRIES\<close> attempts give \<open>False\<close>. On success the renamed file
  is appended to \<open>downloaded_files\<close>, otherwise the scraper is unchanged.
\<close>

theorem C1_download_dataset_bounded_retry:
  "download_dataset st config s = ((b, evs), s') \<Longrightarrow>
   attempts_made evs \<le> MAX_RETRIES \<and>
   (b \<longleftrightarrow> (\<exists>a<MAX_RETRIES. succeeds st a \<and> (\<forall>k<a. retryable st k))) \<and>
   (\<forall>a<MAX_RETRIES. (succeeds st a \<or> gives_up st a) \<and> (\<forall>k<a. retryable st k) \<longrightarrow>
        attempts_made evs = Suc a) \<and>
   ((\<forall>a<MAX_RETRIES. retryable st a) \<longrightarrow> \<not> b \<and> attempts_made evs = MAX_RETRIES) \<and>
   (retryable st 0 \<and> retryable st 1 \<and> succeeds st 2 \<longrightarrow> b \<and> attempts_made evs = 3) \<and>
   s' = (if b then s\<lparr>downloaded_files := downloaded_files s @ [output_name config @ ''.xls'']\<rparr>
         else s)"
proof -
  assume run: "download_dataset st config s = ((b, evs), s')"
  then have da: "download_attempts st config [0..<MAX_RETRIES] s = ((b, evs), s')"
    by (simp add: download_dataset_def)
  have c1: "attempts_made evs \<le> MAX_RETRIES"
    using download_attempts_bound[of st config "[0..<MAX_RETRIES]" s] da by simp
  have "b \<longleftrightarrow> (\<exists>pre a post. [0..<MAX_RETRIES] = pre @ a # post \<and>
           list_all (retryable st) pre \<and> succeeds st a)"
    using download_attempts_result[of st config "[0..<MAX_RETRIES]" s] unfolding da
    by (simp only: fst_conv)
  then have c2: "b \<longleftrightarrow> (\<exists>a<MAX_RETRIES. succeeds st a \<and> (\<forall>k<a. retryable st k))"
    by (simp only: first_success_upt)
  have c3: "attempts_made evs = Suc a"
    if "a < MAX_RETRIES" "succeeds st a \<or> gives_up st a" "\<forall>k<a. retryable st k" for a
  proof -
    have "list_all (retryable st) [0..<a]" using that(3) by (simp add: list_all_iff)
    from download_attempts_count_stop[OF this that(2), of config "[Suc a..<MAX_RETRIES]" s]
    show ?thesis using upt_split_at[OF that(1)] da by simp
  qed
  have c4: "\<not> b \<and> attempts_made evs = MAX_RETRIES" if all: "\<forall>a<MAX_RETRIES. retryable st a"
  proof -
    have "list_all (retryable st) [0..<MAX_RETRIES]" using all by (simp add: list_all_iff)
    from download_attempts_count_all[OF this, of config s] da
    have "attempts_made evs = MAX_RETRIES" by simp
    moreover have "\<not> b"
    proof
      assume b
      with c2 obtain a where "a < MAX_RETRIES" "succeeds st a" by blast
      with all show False by (cases rule: attempt_trichotomy[of st a]) auto
    qed
    ultimately show ?thesis by simp
  qed
  have c5: "b \<and> attempts_made evs = 3" if h: "retryable st 0 \<and> retryable st 1 \<and> succeeds st 2"
  proof -
    have k: "\<forall>k<2. retryable st k" using h by (auto simp: less_Suc_eq numeral_2_eq_2)
    have "2 < MAX_RETRIES" by (simp add: MAX_RETRIES_def)
    with h k have "b" using c2 by blast
    moreover have "attempts_made evs = Suc 2" using c3[of 2] h k by (simp add: MAX_RETRIES_def)
    ultimately show ?thesis by simp
  qed
  have c6: "s' = (if b then s\<lparr>downloaded_files := downloaded_files s @ [output_name config @ ''.xls'']\<rparr>
         else s)"
    using download_attempts_files[OF da] .
  show ?thesis using c1 c2 c3 c4 c5 c6 by blast
qed


text \<open>Two download timeouts, then a download that completes.\<close>

theorem C1_download_dataset_witness:
  "fst (download_dataset (\<lambda>(a::nat) s. if a < 2 \<and> s = AwaitDownload then Some TimeoutException else None)
     (mk_config ''RawDataEquity'' ''jusikhyeong'' ''jeonche'' ''Equity'')
     \<lparr>scraper_driver = FirefoxDriver, downloaded_files = []\<rparr>) =
   (True,
    [AttemptStart 0, Done SetPeriod, Done SetFundType, Done SetRegion, Done SetCategory,
     Done SetScope, Done SetPeriodicity, Done ClickSearch, Done SnapshotDir, Done ClickExport,
     Raised AwaitDownload, CaughtWebDriver TimeoutException, RetryDelay,
     AttemptStart 1, Done SetPeriod, Done SetFundType, Done SetRegion, Done SetCategory,
     Done SetScope, Done SetPeriodicity, Done ClickSearch, Done SnapshotDir, Done ClickExport,
     Raised AwaitDownload, CaughtWebDriver TimeoutException, RetryDelay,
     AttemptStart 2, Done SetPeriod, Done SetFundType, Done SetRegion, Done SetCategory,
     Done SetScope, Done SetPeriodicity, Done ClickSearch, Done SnapshotDir, Done ClickExport,
     Done AwaitDownload, Done RenameFile]) \<and>
   attempts_made (snd (fst (download_dataset
     (\<lambda>(a::nat) s. if a < 2 \<and> s = AwaitDownload then Some TimeoutException else None)
     (mk_config ''RawDataEquity'' ''jusikhyeong'' ''jeonche'' ''Equity'')
     \<lparr>scraper_driver = FirefoxDriver, downloaded_files = []\<rparr>))) = 3 \<and>
   downloaded_files (snd (download_dataset
     (\<lambda>(a::nat) s. if a < 2 \<and> s = AwaitDownload then Some TimeoutException else None)
     (mk_config ''RawDataEquity'' ''jusikhyeong'' ''jeonche'' ''Equity'')
     \<lparr>scraper_driver = FirefoxDriver, downloaded_files = []\<rparr>)) = [''Equity.xls'']"
proof -
  let ?st = "\<lambda>(a::nat) s. if a < 2 \<and> s = AwaitDownload then Some TimeoutException else None"
  let ?cfg = "mk_config ''RawDataEquity'' ''jusikhyeong'' ''jeonche'' ''Equity''"
  let ?s = "\<lparr>scraper_driver = FirefoxDriver, downloaded_files = []\<rparr>"
  obtain b evs s' where run: "download_dataset ?st ?cfg ?s = ((b, evs), s')"
    by (metis prod.collapse)
  have pre: "retryable ?st 0 \<and> retryable ?st 1 \<and> succeeds ?st 2"
    by code_simp
  from C1_download_dataset_bounded_retry[OF run] pre
  have b: "b" and n: "attempts_made evs = 3"
    and s': "s' = (if b then ?s\<lparr>downloaded_files := downloaded_files ?s @ [output_name ?cfg @ ''.xls'']\<rparr> else ?s)"
    by blast+
  have evs: "fst (download_dataset ?st ?cfg ?s) = (True,
    [AttemptStart 0, Done SetPeriod, Done SetFundType, Done SetRegion, Done SetCategory,
     Done SetScope, Done SetPeriodicity, Done ClickSearch, Done SnapshotDir, Done ClickExport,
     Raised AwaitDownload, CaughtWebDriver TimeoutException, RetryDelay,
     AttemptStart 1, Done SetPeriod, Done SetFundType, Done SetRegion, Done SetCategory,
     Done SetScope, Done SetPeriodicity, Done ClickSearch, Done SnapshotDir, Done ClickExport,
     Raised AwaitDownload, CaughtWebDriver TimeoutException, RetryDelay,
     AttemptStart 2, Done SetPeriod, Done SetFundType, Done SetRegion, Done SetCategory,
     Done SetScope, Done SetPeriodicity, Done ClickSearch, Done SnapshotDir, Done ClickExport,
     Done AwaitDownload, Done RenameFile])"
    by code_simp
  have "downloaded_files s' = [''Equity.xls'']" using s' b by (simp add: mk_config_def)
  with run n evs show ?thesis by simp
qed

text \<open>
  The claim as the specification states it has every failure of an attempt retried. When
  the region radio group is not found (a plain \<open>Exception\<close>, line 1176) on attempts 1 and 2
  and attempt 3 would complete, the call ends after the first attempt with \<open>False\<close>.
\<close>

theorem C1_unexpected_error_counterexample:
  "fst (download_dataset (\<lambda>(a::nat) s. if a < 2 \<and> s = SetRegion then Some OtherException else None)
     (mk_config ''RawDataEquity'' ''jusikhyeong'' ''jeonche'' ''Equity'')
     \<lparr>scraper_driver = FirefoxDriver, downloaded_files = []\<rparr>) =
   (False,
    [AttemptStart 0, Done SetPeriod, Done SetFundType, Raised SetRegion,
     CaughtUnexpected OtherException]) \<and>
   attempt_error ((\<lambda>(a::nat) s. if a < 2 \<and> s = SetRegion then Some OtherException else None) 0) =
     Some OtherException \<and>
   attempt_error ((\<lambda>(a::nat) s. if a < 2 \<and> s = SetRegion then Some OtherException else None) 1) =
     Some OtherException \<and>
   attempt_error ((\<lambda>(a::nat) s. if a < 2 \<and> s = SetRegion then Some OtherException else None) 2) = None"
  by code_simp

section \<open>The sequential session\<close>

lemma acquired_iff:
  "acquired st \<longleftrightarrow> (\<exists>a<MAX_RETRIES. succeeds st a \<and> (\<forall>k<a. retryable st k))"
  by (auto simp: acquired_def list_ex_iff list_all_iff)

lemma download_dataset_acquired:
  "fst (fst (download_dataset st cfg s)) = acquired st"
  unfolding download_dataset_def acquired_iff
  using download_attempts_result[of st cfg "[0..<MAX_RETRIES]" s]
  by (simp only: first_success_upt)

lemma run_steps_ok_events:
  "run_steps oc ss = (None, evs) \<Longrightarrow> evs = map Done ss"
proof (induction ss arbitrary: evs)
  case Nil
  then show ?case by simp
next
  case (Cons x xs)
  obtain r evs' where t: "run_steps oc xs = (r, evs')" by (cases "run_steps oc xs")
  from Cons.prems t have "oc x = None" "r = None" "evs = Done x # evs'"
    by (auto split: option.splits)
  with Cons.IH[of evs'] t show ?case by simp
qed

lemma attempt_steps_end:
  "map Done attempt_steps =
     map Done [SetPeriod, SetFundType, SetRegion, SetCategory, SetScope, SetPeriodicity,
               ClickSearch, SnapshotDir, ClickExport] @ [Done AwaitDownload, Done RenameFile]"
  by (simp add: attempt_steps_def)

lemma download_attempts_success_tail:
  "download_attempts st cfg as s = ((True, evs), s') \<Longrightarrow>
   \<exists>E. evs = E @ [Done AwaitDownload, Done RenameFile]"
proof (induction as arbitrary: evs s')
  case Nil
  then show ?case by simp
next
  case (Cons a as)
  obtain r evs1 where t: "run_steps (st a) attempt_steps = (r, evs1)" by (cases "run_steps (st a) attempt_steps")
  obtain b2 evs2 s2 where d: "download_attempts st cfg as s = ((b2, evs2), s2)"
    by (metis prod.collapse)
  show ?case
  proof (cases r)
    case None
    with t have "evs1 = map Done attempt_steps" using run_steps_ok_events by blast
    moreover from None t Cons.prems have "evs = AttemptStart a # evs1" by simp
    ultimately have "evs = (AttemptStart a # map Done [SetPeriod, SetFundType, SetRegion, SetCategory, SetScope, SetPeriodicity,
               ClickSearch, SnapshotDir, ClickExport]) @ [Done AwaitDownload, Done RenameFile]"
      by (simp only: attempt_steps_end append_Cons)
    then show ?thesis by blast
  next
    case (Some e)
    show ?thesis
    proof (cases "is_WebDriverException e")
      case True
      with Some t d Cons.prems have b2: "b2 = True"
        and evs: "evs = AttemptStart a # evs1 @ CaughtWebDriver e #
                      (if a < MAX_RETRIES - 1 then [RetryDelay] else []) @ evs2" by auto
      from Cons.IH[of evs2 s2] d b2 obtain E where "evs2 = E @ [Done AwaitDownload, Done RenameFile]" by blast
      with evs have "evs = (AttemptStart a # evs1 @ CaughtWebDriver e #
                      (if a < MAX_RETRIES - 1 then [RetryDelay] else []) @ E) @ [Done AwaitDownload, Done RenameFile]" by simp
      then show ?thesis by blast
    next
      case False
      with Some t Cons.prems show ?thesis by auto
    qed
  qed
qed

lemma download_dataset_success_tail:
  assumes "acquired st"
  shows "\<exists>E. snd (fst (download_dataset st cfg s)) = E @ [Done AwaitDownload, Done RenameFile]"
proof -
  obtain b evs s' where d: "download_dataset st cfg s = ((b, evs), s')" by (metis prod.collapse)
  with assms download_dataset_acquired[of st cfg s] have "b = True" by simp
  with d have "download_attempts st cfg [0..<MAX_RETRIES] s = ((True, evs), s')"
    by (simp add: download_dataset_def)
  from download_attempts_success_tail[OF this] d show ?thesis by simp
qed

lemma download_all_events_Cons:
  "\<exists>acc' s1. snd (fst (download_all sites i (c # cs) acc s)) =
     map (Dataset i) (snd (fst (download_dataset (sites i) c s))) @
     snd (fst (download_all sites (Suc i) cs acc' s1))"
proof -
  obtain ok bad where acc: "acc = (ok, bad)" by (cases acc)
  obtain b evs s1 where d: "download_dataset (sites i) c s = ((b, evs), s1)" by (metis prod.collapse)
  let ?acc' = "if b then (Suc ok, bad) else (ok, Suc bad)"
  obtain counts evs' s2 where r: "download_all sites (Suc i) cs ?acc' s1 = ((counts, evs'), s2)"
    by (metis prod.collapse)
  have "snd (fst (download_all sites i (c # cs) acc s)) = map (Dataset i) evs @ evs'"
    using acc d r by simp
  with d r show ?thesis by (metis fst_conv snd_conv)
qed

lemma download_all_tags:
  "ev \<in> set (snd (fst (download_all sites i cs acc s))) \<Longrightarrow>
   \<exists>j d. ev = Dataset j d \<and> i \<le> j \<and> j < i + length cs"
proof (induction cs arbitrary: i acc s)
  case Nil
  then show ?case by (cases acc) simp
next
  case (Cons c cs)
  from download_all_events_Cons[of sites i c cs acc s] obtain acc' s1 where
    e: "snd (fst (download_all sites i (c # cs) acc s)) =
     map (Dataset i) (snd (fst (download_dataset (sites i) c s))) @
     snd (fst (download_all sites (Suc i) cs acc' s1))" by blast
  from Cons.prems e have "ev \<in> set (map (Dataset i) (snd (fst (download_dataset (sites i) c s)))) \<or>
    ev \<in> set (snd (fst (download_all sites (Suc i) cs acc' s1)))" by simp
  then show ?case
  proof
    assume "ev \<in> set (map (Dataset i) (snd (fst (download_dataset (sites i) c s))))"
    then obtain d where "ev = Dataset i d" by auto
    then show ?thesis by simp
  next
    assume "ev \<in> set (snd (fst (download_all sites (Suc i) cs acc' s1)))"
    from Cons.IH[OF this] obtain j d where "ev = Dataset j d" "Suc i \<le> j" "j < Suc i + length cs" by blast
    then have "ev = Dataset j d \<and> i \<le> j \<and> j < i + length (c # cs)" by simp
    then show ?thesis by blast
  qed
qed

lemma split_after_block:
  assumes "x \<notin> set B" "B @ T = pre @ x # post"
  shows "\<exists>pre'. pre = B @ pre' \<and> T = pre' @ x # post"
proof -
  from assms(2) obtain us where
    "B = pre @ us \<and> us @ T = x # post \<or> B @ us = pre \<and> T = us @ x # post"
    by (auto simp: append_eq_append_conv2)
  then show ?thesis
  proof
    assume h: "B = pre @ us \<and> us @ T = x # post"
    show ?thesis
    proof (cases us)
      case Nil
      with h show ?thesis by simp
    next
      case (Cons u us')
      with h have "u = x" by simp
      with Cons h have "x \<in> set B" by simp
      with assms(1) show ?thesis by simp
    qed
  next
    assume "B @ us = pre \<and> T = us @ x # post"
    then show ?thesis by blast
  qed
qed

lemma split_before_rest:
  assumes "x \<notin> set R" "T @ R = pre @ x # post"
  shows "\<exists>post'. post = post' @ R \<and> T = pre @ x # post'"
proof -
  from assms(2) obtain us where
    "T = pre @ us \<and> us @ R = x # post \<or> T @ us = pre \<and> R = us @ x # post"
    by (auto simp: append_eq_append_conv2)
  then show ?thesis
  proof
    assume h: "T = pre @ us \<and> us @ R = x # post"
    show ?thesis
    proof (cases us)
      case Nil
      with h have "x \<in> set R" by (metis append_Nil list.set_intros(1))
      with assms(1) show ?thesis by simp
    next
      case (Cons u us')
      with h have "u = x" "post = us' @ R" by simp_all
      with Cons h show ?thesis by simp
    qed
  next
    assume "T @ us = pre \<and> R = us @ x # post"
    then have "x \<in> set R" by simp
    with assms(1) show ?thesis by simp
  qed
qed


lemma download_all_sequential:
  "snd (fst (download_all sites i cs acc s)) = pre @ Dataset (Suc n) (Done ClickSearch) # post \<Longrightarrow>
   i \<le> n \<Longrightarrow>
   (\<forall>ev. Dataset n ev \<notin> set post) \<and>
   (acquired (sites n) \<longrightarrow>
      (\<exists>u v w. pre = u @ Dataset n (Done AwaitDownload) # v @ Dataset n (Done RenameFile) # w))"
proof (induction cs arbitrary: i acc s pre)
  case Nil
  then show ?case by (cases acc) simp
next
  case (Cons c cs)
  let ?x = "Dataset (Suc n) (Done ClickSearch)"
  let ?B = "map (Dataset i) (snd (fst (download_dataset (sites i) c s)))"
  from download_all_events_Cons[of sites i c cs acc s] obtain acc' s1 where
    e: "snd (fst (download_all sites i (c # cs) acc s)) =
          ?B @ snd (fst (download_all sites (Suc i) cs acc' s1))" by blast
  let ?T' = "snd (fst (download_all sites (Suc i) cs acc' s1))"
  have xB: "?x \<notin> set ?B" using Cons.prems(2) by auto
  have BT: "?B @ ?T' = pre @ ?x # post" using e Cons.prems(1) by simp
  from split_after_block[OF xB BT] obtain pre' where
    pre: "pre = ?B @ pre'" and T': "?T' = pre' @ ?x # post" by blast
  show ?case
  proof (cases "i = n")
    case True
    have i: "Dataset n ev \<notin> set post" for ev
    proof
      assume "Dataset n ev \<in> set post"
      with T' have "Dataset n ev \<in> set ?T'" by simp
      from download_all_tags[OF this] True show False by auto
    qed
    have ii: "\<exists>u v w. pre = u @ Dataset n (Done AwaitDownload) # v @ Dataset n (Done RenameFile) # w"
      if "acquired (sites n)"
    proof -
      from download_dataset_success_tail[OF that, of c s] obtain E where
        "snd (fst (download_dataset (sites n) c s)) = E @ [Done AwaitDownload, Done RenameFile]"
        by blast
      with pre True have "pre = map (Dataset n) E @ Dataset n (Done AwaitDownload) # [] @
          Dataset n (Done RenameFile) # pre'" by simp
      then show ?thesis by blast
    qed
    from i ii show ?thesis by blast
  next
    case False
    with Cons.prems(2) have le: "Suc i \<le> n" by simp
    from Cons.IH[OF T' le] have
      i: "\<forall>ev. Dataset n ev \<notin> set post" and
      ii: "acquired (sites n) \<longrightarrow>
        (\<exists>u v w. pre' = u @ Dataset n (Done AwaitDownload) # v @ Dataset n (Done RenameFile) # w)"
      by blast+
    have "\<exists>u v w. pre = u @ Dataset n (Done AwaitDownload) # v @ Dataset n (Done RenameFile) # w"
      if "acquired (sites n)"
    proof -
      from ii that obtain u v w where
        "pre' = u @ Dataset n (Done AwaitDownload) # v @ Dataset n (Done RenameFile) # w" by blast
      with pre have "pre = (?B @ u) @ Dataset n (Done AwaitDownload) # v @ Dataset n (Done RenameFile) # w"
        by simp
      then show ?thesis by blast
    qed
    with i show ?thesis by blast
  qed
qed

lemma log_lines_no_Dataset: "Dataset j d \<notin> set (snd (log_lines bound ls))"
  by (induction bound ls rule: log_lines.induct) (auto split: prod.splits)

lemma run_handler_no_Dataset: "Dataset j d \<notin> set (snd (run_handler env))"
  by (simp add: run_handler_def split: option.splits)

lemma run_trace_shape:
  assumes "run env configs s = ((r, T), s')" "Dataset j d \<in> set T"
  shows "\<exists>R. T = NavigationDone # snd (fst (download_all (site_of env) 1 configs (0, 0) s)) @ R \<and>
             (\<forall>k e. Dataset k e \<notin> set R)"
proof (cases "navigate env")
  case (Some e)
  with assms have False
    using run_handler_no_Dataset[of j d env]
    by (auto simp: run_def run_try_def split: option.splits prod.splits)
  then show ?thesis ..
next
  case None
  obtain counts evs s1 where da: "download_all (site_of env) 1 configs (0, 0) s = ((counts, evs), s1)"
    by (metis prod.collapse)
  obtain r1 logs where ll: "log_lines run_bound_names summary_lines = (r1, logs)"
    by (metis prod.collapse)
  obtain r2 evs2 where h: "(case r1 of None \<Rightarrow> (None, []) | Some e \<Rightarrow> run_handler env) = (r2, evs2)"
    by (metis prod.collapse)
  have nologs: "Dataset k e \<notin> set logs" for k e
    using log_lines_no_Dataset[of k e run_bound_names summary_lines] ll by simp
  have noh: "Dataset k e \<notin> set evs2" for k e
    using h run_handler_no_Dataset[of k e env] by (cases r1) auto
  let ?R = "Logged ''Download Summary'' # logs @ evs2 @
            (case driver_quit env of Some e \<Rightarrow> [DriverQuit]
             | None \<Rightarrow> [DriverQuit, Logged ''WebDriver closed.''])"
  have T: "T = NavigationDone # evs @ ?R"
    using assms(1) None da ll h by (auto simp: run_def run_try_def split: option.splits)
  have "\<forall>k e. Dataset k e \<notin> set ?R" using nologs noh by (auto split: option.splits)
  with T da show ?thesis by (metis fst_conv snd_conv)
qed

lemma run_steps_events:
  "ev \<in> set (snd (run_steps oc ss)) \<Longrightarrow> (\<exists>s \<in> set ss. ev = Done s \<or> ev = Raised s)"
proof (induction ss)
  case Nil
  then show ?case by simp
next
  case (Cons x xs)
  obtain r evs where t: "run_steps oc xs = (r, evs)" by (cases "run_steps oc xs")
  show ?case
  proof (cases "oc x")
    case None
    with t Cons.prems have "ev = Done x \<or> ev \<in> set (snd (run_steps oc xs))" by auto
    with Cons.IH show ?thesis by auto
  next
    case (Some e)
    with Cons.prems show ?thesis by simp
  qed
qed

lemma run_steps_Done_last:
  "run_steps oc (ss @ [l]) = (r, evs) \<Longrightarrow> Done l \<in> set evs \<Longrightarrow> l \<notin> set ss \<Longrightarrow> r = None"
proof (induction ss arbitrary: r evs)
  case Nil
  then show ?case by (cases "oc l") auto
next
  case (Cons x xs)
  obtain r' evs' where t: "run_steps oc (xs @ [l]) = (r', evs')" by (cases "run_steps oc (xs @ [l])")
  show ?case
  proof (cases "oc x")
    case None
    with t Cons.prems(1) have r: "r = r'" and evs: "evs = Done x # evs'" by auto
    from Cons.prems(2,3) evs have "Done l \<in> set evs'" by auto
    with Cons.IH[OF t] Cons.prems(3) r show ?thesis by simp
  next
    case (Some e)
    with Cons.prems(1) have "evs = [Raised x]" by auto
    with Cons.prems(2) show ?thesis by simp
  qed
qed

lemma attempt_steps_last:
  "attempt_steps =
     [SetPeriod, SetFundType, SetRegion, SetCategory, SetScope, SetPeriodicity,
      ClickSearch, SnapshotDir, ClickExport, AwaitDownload] @ [RenameFile]"
  by (simp add: attempt_steps_def)

lemma failed_attempt_no_rename:
  assumes "run_steps oc attempt_steps = (Some e, evs)"
  shows "Done RenameFile \<notin> set evs"
proof
  assume d: "Done RenameFile \<in> set evs"
  have r: "run_steps oc ([SetPeriod, SetFundType, SetRegion, SetCategory, SetScope, SetPeriodicity,
      ClickSearch, SnapshotDir, ClickExport, AwaitDownload] @ [RenameFile]) = (Some e, evs)"
    using assms by (simp only: attempt_steps_last)
  have n: "RenameFile \<notin> set [SetPeriod, SetFundType, SetRegion, SetCategory, SetScope,
      SetPeriodicity, ClickSearch, SnapshotDir, ClickExport, AwaitDownload]" by simp
  from run_steps_Done_last[OF r d n] show False by simp
qed

lemma download_attempts_no_rename:
  "download_attempts st cfg as s = ((False, evs), s') \<Longrightarrow> Done RenameFile \<notin> set evs"
proof (induction as arbitrary: evs s')
  case Nil
  then show ?case by simp
next
  case (Cons a as)
  obtain r evs1 where t: "run_steps (st a) attempt_steps = (r, evs1)" by (cases "run_steps (st a) attempt_steps")
  obtain b2 evs2 s2 where d: "download_attempts st cfg as s = ((b2, evs2), s2)"
    by (metis prod.collapse)
  show ?case
  proof (cases r)
    case None
    with t Cons.prems show ?thesis by simp
  next
    case (Some e)
    with t have nr: "Done RenameFile \<notin> set evs1" using failed_attempt_no_rename by blast
    show ?thesis
    proof (cases "is_WebDriverException e")
      case True
      with Some t d Cons.prems have b2: "b2 = False"
        and evs: "evs = AttemptStart a # evs1 @ CaughtWebDriver e #
                      (if a < MAX_RETRIES - 1 then [RetryDelay] else []) @ evs2" by auto
      from Cons.IH[of evs2 s2] d b2 have "Done RenameFile \<notin> set evs2" by simp
      with nr evs show ?thesis by auto
    next
      case False
      with Some t Cons.prems have "evs = AttemptStart a # evs1 @ [CaughtUnexpected e]" by auto
      with nr show ?thesis by auto
    qed
  qed
qed

lemma download_dataset_no_rename:
  assumes "\<not> acquired st"
  shows "Done RenameFile \<notin> set (snd (fst (download_dataset st cfg s)))"
proof -
  obtain b evs s' where d: "download_dataset st cfg s = ((b, evs), s')" by (metis prod.collapse)
  with assms download_dataset_acquired[of st cfg s] have "b = False" by simp
  with d have "download_attempts st cfg [0..<MAX_RETRIES] s = ((False, evs), s')"
    by (simp add: download_dataset_def)
  from download_attempts_no_rename[OF this] d show ?thesis by simp
qed

lemma download_all_no_rename:
  "\<not> acquired (sites n) \<Longrightarrow>
   Dataset n (Done RenameFile) \<notin> set (snd (fst (download_all sites i cs acc s)))"
proof (induction cs arbitrary: i acc s)
  case Nil
  show ?case by (cases acc) simp
next
  case (Cons c cs)
  from download_all_events_Cons[of sites i c cs acc s] obtain acc' s1 where
    e: "snd (fst (download_all sites i (c # cs) acc s)) =
          map (Dataset i) (snd (fst (download_dataset (sites i) c s))) @
          snd (fst (download_all sites (Suc i) cs acc' s1))" by blast
  have 1: "Dataset n (Done RenameFile) \<notin> set (map (Dataset i) (snd (fst (download_dataset (sites i) c s))))"
  proof
    assume "Dataset n (Done RenameFile) \<in> set (map (Dataset i) (snd (fst (download_dataset (sites i) c s))))"
    then have "i = n" and "Done RenameFile \<in> set (snd (fst (download_dataset (sites i) c s)))" by auto
    with download_dataset_no_rename[OF Cons.prems, of c s] show False by simp
  qed
  have 2: "Dataset n (Done RenameFile) \<notin> set (snd (fst (download_all sites (Suc i) cs acc' s1)))"
    using Cons.IH[OF Cons.prems] .
  from 1 2 show ?case unfolding e by simp
qed

text \<open>
  Claim C9, as the code has it. In the trace of \<open>run\<close>, take any point where the search of
  dataset \<open>n + 1\<close> has been triggered. From there on nothing of dataset \<open>n\<close> happens any
  more: its acquisition is over. If dataset \<open>n\<close> was acquired (\<open>download_dataset\<close> returned
  \<open>True\<close> for it), its file was detected and then renamed before that point. If it was
  given up, the search of dataset \<open>n + 1\<close> is triggered all the same, and no file of
  dataset \<open>n\<close> is renamed anywhere in the run.
\<close>

theorem C9_next_search_after_previous_dataset:
  "run env configs s = ((r, T), s') \<Longrightarrow>
   T = pre @ Dataset (Suc n) (Done ClickSearch) # post \<Longrightarrow> 1 \<le> n \<Longrightarrow>
   (\<forall>ev. Dataset n ev \<notin> set post) \<and>
   (acquired (site_of env n) \<longrightarrow>
      (\<exists>u v w. pre = u @ Dataset n (Done AwaitDownload) # v @ Dataset n (Done RenameFile) # w)) \<and>
   (\<not> acquired (site_of env n) \<longrightarrow> Dataset n (Done RenameFile) \<notin> set T) \<and>
   (\<forall>cfg s0. fst (fst (download_dataset (site_of env n) cfg s0)) = acquired (site_of env n))"
proof -
  assume run: "run env configs s = ((r, T), s')"
    and T: "T = pre @ Dataset (Suc n) (Done ClickSearch) # post" and n: "1 \<le> n"
  let ?x = "Dataset (Suc n) (Done ClickSearch)"
  let ?D = "snd (fst (download_all (site_of env) 1 configs (0, 0) s))"
  have "?x \<in> set T" using T by simp
  from run_trace_shape[OF run this] obtain R where
    shape: "T = NavigationDone # ?D @ R" and R: "\<forall>k e. Dataset k e \<notin> set R" by blast
  have "[NavigationDone] @ (?D @ R) = pre @ ?x # post" using shape T by simp
  moreover have "?x \<notin> set [NavigationDone]" by simp
  ultimately have "\<exists>pre1. pre = [NavigationDone] @ pre1 \<and> ?D @ R = pre1 @ ?x # post"
    by (rule split_after_block[rotated])
  then obtain pre1 where pre: "pre = [NavigationDone] @ pre1" and 1: "?D @ R = pre1 @ ?x # post"
    by blast
  have xR: "?x \<notin> set R" using R by blast
  from split_before_rest[OF xR 1] obtain post1 where
    post: "post = post1 @ R" and D: "?D = pre1 @ ?x # post1" by blast
  from download_all_sequential[OF D] n have
    i: "\<forall>ev. Dataset n ev \<notin> set post1" and
    ii: "acquired (site_of env n) \<longrightarrow>
      (\<exists>u v w. pre1 = u @ Dataset n (Done AwaitDownload) # v @ Dataset n (Done RenameFile) # w)"
    by blast+
  have c1: "\<forall>ev. Dataset n ev \<notin> set post" using i R post by auto
  have c2: "\<exists>u v w. pre = u @ Dataset n (Done AwaitDownload) # v @ Dataset n (Done RenameFile) # w"
    if "acquired (site_of env n)"
  proof -
    from ii that obtain u v w where
      "pre1 = u @ Dataset n (Done AwaitDownload) # v @ Dataset n (Done RenameFile) # w" by blast
    with pre have "pre = (NavigationDone # u) @ Dataset n (Done AwaitDownload) # v @
        Dataset n (Done RenameFile) # w" by simp
    then show ?thesis by blast
  qed
  have c3: "Dataset n (Done RenameFile) \<notin> set T" if "\<not> acquired (site_of env n)"
    using download_all_no_rename[of "site_of env" n 1 configs "(0, 0)" s] that R shape by simp
  show ?thesis using c1 c2 c3 download_dataset_acquired by blast
qed


text \<open>Two datasets on a site where every step completes: the second search is the event
  at position 20 of the trace.\<close>

theorem C9_sequential_witness:
  "snd (fst (run \<lparr>navigate = None, site_of = (\<lambda>i a s. None), current_url = None, driver_quit = None\<rparr>
       (take 2 DATASET_CONFIGS) \<lparr>scraper_driver = FirefoxDriver, downloaded_files = []\<rparr>)) ! 20 =
     Dataset 2 (Done ClickSearch) \<and>
   acquired (\<lambda>a s. None) \<and>
   (\<exists>u v w. take 20 (snd (fst (run
       \<lparr>navigate = None, site_of = (\<lambda>i a s. None), current_url = None, driver_quit = None\<rparr>
       (take 2 DATASET_CONFIGS) \<lparr>scraper_driver = FirefoxDriver, downloaded_files = []\<rparr>))) =
      u @ Dataset 1 (Done AwaitDownload) # v @ Dataset 1 (Done RenameFile) # w)"
proof -
  let ?env = "\<lparr>navigate = None, site_of = (\<lambda>(i::nat) (a::nat) (s::step). None::exn option),
               current_url = None, driver_quit = None\<rparr>"
  let ?s = "\<lparr>scraper_driver = FirefoxDriver, downloaded_files = []\<rparr>"
  obtain r T s' where run: "run ?env (take 2 DATASET_CONFIGS) ?s = ((r, T), s')"
    by (metis prod.collapse)
  have len: "length (snd (fst (run ?env (take 2 DATASET_CONFIGS) ?s))) = 38" by code_simp
  have at: "snd (fst (run ?env (take 2 DATASET_CONFIGS) ?s)) ! 20 = Dataset 2 (Done ClickSearch)"
    by code_simp
  have acq: "acquired (\<lambda>(a::nat) (s::step). None::exn option)" by code_simp
  have "20 < length T" using len run by simp
  then have T: "T = take 20 T @ T ! 20 # drop (Suc 20) T" by (rule id_take_nth_drop)
  have T20: "T ! 20 = Dataset (Suc 1) (Done ClickSearch)" using at run by simp
  have split: "T = take 20 T @ Dataset (Suc 1) (Done ClickSearch) # drop (Suc 20) T"
    using T T20 by simp
  from C9_next_search_after_previous_dataset[OF run split] acq
  have "\<exists>u v w. take 20 T = u @ Dataset 1 (Done AwaitDownload) # v @ Dataset 1 (Done RenameFile) # w"
    by simp
  with run at acq show ?thesis by simp
qed

text \<open>
  The claim as the specification states it has the file of dataset \<open>n\<close> detected and renamed
  before every search of dataset \<open>n + 1\<close>. When the download of the first dataset times out
  on every attempt, its export was triggered, its file is never detected or renamed, and the
  search of the second dataset is triggered.
\<close>

theorem C9_failed_dataset_counterexample:
  "Dataset 2 (Done ClickSearch) \<in> set (snd (fst (run
       \<lparr>navigate = None,
        site_of = (\<lambda>i a s. if i = 1 \<and> s = AwaitDownload then Some TimeoutException else None),
        current_url = None, driver_quit = None\<rparr>
       (take 2 DATASET_CONFIGS) \<lparr>scraper_driver = FirefoxDriver, downloaded_files = []\<rparr>))) \<and>
   Dataset 1 (Done ClickExport) \<in> set (snd (fst (run
       \<lparr>navigate = None,
        site_of = (\<lambda>i a s. if i = 1 \<and> s = AwaitDownload then Some TimeoutException else None),
        current_url = None, driver_quit = None\<rparr>
       (take 2 DATASET_CONFIGS) \<lparr>scraper_driver = FirefoxDriver, downloaded_files = []\<rparr>))) \<and>
   Dataset 1 (Done AwaitDownload) \<notin> set (snd (fst (run
       \<lparr>navigate = None,
        site_of = (\<lambda>i a s. if i = 1 \<and> s = AwaitDownload then Some TimeoutException else None),
        current_url = None, driver_quit = None\<rparr>
       (take 2 DATASET_CONFIGS) \<lparr>scraper_driver = FirefoxDriver, downloaded_files = []\<rparr>))) \<and>
   Dataset 1 (Done RenameFile) \<notin> set (snd (fst (run
       \<lparr>navigate = None,
        site_of = (\<lambda>i a s. if i = 1 \<and> s = AwaitDownload then Some TimeoutException else None),
        current_url = None, driver_quit = None\<rparr>
       (take 2 DATASET_CONFIGS) \<lparr>scraper_driver = FirefoxDriver, downloaded_files = []\<rparr>)))"
  by code_simp

lemma summary_raises_NameError:
  "log_lines run_bound_names summary_lines =
     (Some NameError,
      [Logged ''===='', Logged ''EXECUTION SUMMARY'', Logged ''===='', Logged ''End Time'',
       Logged ''Total Execution Time'', Logged ''Navigation Time'', Logged ''Download Time''])"
  by code_simp

lemma download_all_no_Logged: "Logged l \<notin> set (snd (fst (download_all sites i cs acc s)))"
  using download_all_tags[of "Logged l" sites i cs acc s] by auto

text \<open>
  Claim C10, as the code has it. When navigation does not raise, the \<open>try\<close> body of \<open>run\<close>
  always ends in \<open>NameError\<close>: the summary is logged up to the line \<open>Download Time\<close>, the
  line \<open>Processing Time\<close> reads the unbound name \<open>process_duration\<close>, and the last line of
  the summary is never logged. The error is caught by the handler of \<open>run\<close>, which logs the
  failure, and the \<open>finally\<close> block calls \<open>quit()\<close>. No exception reaches the caller exactly
  when the driver answers \<open>current_url\<close> in the handler and \<open>quit()\<close> in the \<open>finally\<close> block.
\<close>

theorem C10_run_ends_on_failure_path:
  "navigate env = None \<Longrightarrow> run env configs s = ((r, T), s') \<Longrightarrow>
   fst (fst (run_try env configs s)) = Some NameError \<and>
   Logged ''Download Time'' \<in> set T \<and>
   Logged ''Processing Time'' \<notin> set T \<and>
   Logged ''KOFIA Web Scraper completed successfully'' \<notin> set T \<and>
   Logged ''EXECUTION FAILED'' \<in> set T \<and>
   DriverQuit \<in> set T \<and>
   (r = None \<longleftrightarrow> current_url env = None \<and> driver_quit env = None)"
proof -
  assume nav: "navigate env = None" and run: "run env configs s = ((r, T), s')"
  obtain counts evs s1 where da: "download_all (site_of env) 1 configs (0, 0) s = ((counts, evs), s1)"
    by (metis prod.collapse)
  have nl: "Logged l \<notin> set evs" for l
    using download_all_no_Logged[of l "site_of env" 1 configs "(0, 0)" s] da by simp
  let ?logs = "[Logged ''===='', Logged ''EXECUTION SUMMARY'', Logged ''===='', Logged ''End Time'',
       Logged ''Total Execution Time'', Logged ''Navigation Time'', Logged ''Download Time'']"
  have rt: "run_try env configs s =
      ((Some NameError, NavigationDone # evs @ Logged ''Download Summary'' # ?logs), s1)"
    using nav da by (simp add: run_try_def summary_raises_NameError)
  have c1: "fst (fst (run_try env configs s)) = Some NameError" using rt by simp
  obtain r2 evs2 where h: "run_handler env = (r2, evs2)" by (metis prod.collapse)
  have h_cases: "(r2 = None \<longleftrightarrow> current_url env = None) \<and> Logged ''EXECUTION FAILED'' \<in> set evs2 \<and>
      Logged ''Processing Time'' \<notin> set evs2 \<and>
      Logged ''KOFIA Web Scraper completed successfully'' \<notin> set evs2"
    using h by (auto simp: run_handler_def split: option.splits)
  show ?thesis
  proof (cases "driver_quit env")
    case None
    with run rt h have "r = r2"
      and T: "T = (NavigationDone # evs @ Logged ''Download Summary'' # ?logs) @ evs2 @
                  [DriverQuit, Logged ''WebDriver closed.'']"
      by (simp_all add: run_def)
    with None h_cases nl c1 show ?thesis by simp
  next
    case (Some e)
    with run rt h have "r = Some e"
      and T: "T = (NavigationDone # evs @ Logged ''Download Summary'' # ?logs) @ evs2 @ [DriverQuit]"
      by (simp_all add: run_def)
    with Some h_cases nl c1 show ?thesis by simp
  qed
qed

text \<open>The shipped datasets on a site where every step completes and a driver that
  answers.\<close>

theorem C10_run_witness:
  "fst (fst (run \<lparr>navigate = None, site_of = (\<lambda>i a s. None), current_url = None, driver_quit = None\<rparr>
       DATASET_CONFIGS \<lparr>scraper_driver = FirefoxDriver, downloaded_files = []\<rparr>)) = None \<and>
   Logged ''EXECUTION FAILED'' \<in> set (snd (fst (run
       \<lparr>navigate = None, site_of = (\<lambda>i a s. None), current_url = None, driver_quit = None\<rparr>
       DATASET_CONFIGS \<lparr>scraper_driver = FirefoxDriver, downloaded_files = []\<rparr>))) \<and>
   Logged ''KOFIA Web Scraper completed successfully'' \<notin> set (snd (fst (run
       \<lparr>navigate = None, site_of = (\<lambda>i a s. None), current_url = None, driver_quit = None\<rparr>
       DATASET_CONFIGS \<lparr>scraper_driver = FirefoxDriver, downloaded_files = []\<rparr>))) \<and>
   DriverQuit \<in> set (snd (fst (run
       \<lparr>navigate = None, site_of = (\<lambda>i a s. None), current_url = None, driver_quit = None\<rparr>
       DATASET_CONFIGS \<lparr>scraper_driver = FirefoxDriver, downloaded_files = []\<rparr>)))"
proof -
  let ?env = "\<lparr>navigate = None, site_of = (\<lambda>(i::nat) (a::nat) (s::step). None::exn option),
               current_url = None, driver_quit = None\<rparr>"
  let ?s = "\<lparr>scraper_driver = FirefoxDriver, downloaded_files = []\<rparr>"
  obtain r T s' where run: "run ?env DATASET_CONFIGS ?s = ((r, T), s')"
    by (metis prod.collapse)
  have nav: "navigate ?env = None" by simp
  from C10_run_ends_on_failure_path[OF nav run]
  have "r = None" "Logged ''EXECUTION FAILED'' \<in> set T"
    "Logged ''KOFIA Web Scraper completed successfully'' \<notin> set T" "DriverQuit \<in> set T"
    by simp_all
  with run show ?thesis by simp
qed

text \<open>
  The claim as stated has \<open>run\<close> never raise. When navigation and every dataset complete and
  the browser session is gone by the time the handler reads \<open>self.driver.current_url\<close>
  (line 1941), that \<open>WebDriverException\<close> is raised inside the handler and reaches the caller.
\<close>

theorem C10_handler_raises_counterexample:
  "navigate \<lparr>navigate = None, site_of = (\<lambda>i a s. None),
             current_url = Some WebDriverException, driver_quit = None\<rparr> = None \<and>
   fst (fst (run \<lparr>navigate = None, site_of = (\<lambda>i a s. None),
                  current_url = Some WebDriverException, driver_quit = None\<rparr>
       DATASET_CONFIGS \<lparr>scraper_driver = FirefoxDriver, downloaded_files = []\<rparr>)) =
     Some WebDriverException"
  by code_simp

section \<open>Parallel sessions\<close>

lemma batch_downloads_names:
  "map snd (fst (batch_downloads sites i cs rs s)) = map snd rs @ map name cs"
proof (induction cs arbitrary: i rs s)
  case Nil
  show ?case by simp
next
  case (Cons c cs)
  obtain b evs s1 where d: "download_dataset (sites i) c s = ((b, evs), s1)" by (metis prod.collapse)
  then have "batch_downloads sites i (c # cs) rs s = batch_downloads sites (Suc i) cs (rs @ [(b, name c)]) s1"
    by simp
  with Cons.IH[of "Suc i" "rs @ [(b, name c)]" s1] show ?case by simp
qed

lemma mark_remaining_failed_names:
  "distinct (map name cs) \<Longrightarrow> set (map name cs) \<inter> set (map snd rs) = {} \<Longrightarrow>
   mark_remaining_failed cs rs = rs @ map (\<lambda>c. (False, name c)) cs"
proof (induction cs arbitrary: rs)
  case Nil
  show ?case by simp
next
  case (Cons c cs)
  from Cons.prems(2) have notin: "\<not> list_ex (\<lambda>r. name c = snd r) rs"
    by (auto simp: list_ex_iff)
  have d: "distinct (map name cs)" using Cons.prems(1) by simp
  have i: "set (map name cs) \<inter> set (map snd (rs @ [(False, name c)])) = {}"
    using Cons.prems by auto
  have "mark_remaining_failed cs (rs @ [(False, name c)]) =
      (rs @ [(False, name c)]) @ map (\<lambda>c. (False, name c)) cs" by (rule Cons.IH[OF d i])
  with notin show ?case by simp
qed

lemma download_datasets_batch_names:
  assumes "distinct (map name batch)"
  shows "map snd (fst (download_datasets_batch browser use_stealth env batch True)) = map name batch"
proof -
  have m: "mark_remaining_failed batch [] = map (\<lambda>c. (False, name c)) batch"
    using mark_remaining_failed_names[OF assms, of "[]"] by simp
  have mm: "map snd (mark_remaining_failed batch []) = map name batch"
    unfolding m by (simp add: comp_def)
  show ?thesis
  proof (cases "KOFIAScraper_init browser use_stealth (browser_libs env)")
    case (Inl e)
    then show ?thesis using mm by (simp add: download_datasets_batch_def)
  next
    case (Inr s)
    show ?thesis
    proof (cases "tab_navigate env")
      case (Some e)
      with Inr show ?thesis using mm by (simp add: download_datasets_batch_def)
    next
      case None
      obtain results s' where b: "batch_downloads (tab_site env) 0 batch [] s = (results, s')"
        by (metis prod.collapse)
      have "map snd results = map name batch"
        using batch_downloads_names[of "tab_site env" 0 batch "[]" s] b by simp
      with Inr None b show ?thesis by (simp add: download_datasets_batch_def)
    qed
  qed
qed

lemma collect_results_eq:
  "collect_results outcome order rs act =
     (rs @ concat (map (\<lambda>t. fst (outcome t)) order),
      act @ concat (map (\<lambda>t. case snd (outcome t) of None \<Rightarrow> [] | Some s \<Rightarrow> [(t, s)]) order))"
proof (induction order arbitrary: rs act)
  case Nil
  show ?case by simp
next
  case (Cons t ts)
  obtain br sc where o: "outcome t = (br, sc)" by (cases "outcome t")
  show ?case using o Cons.IH by (cases sc) simp_all
qed

lemma failed_datasets_names:
  "set (map snd rs) \<subseteq> set (map name configs) \<Longrightarrow>
   map name (failed_datasets configs rs) = map snd (filter (\<lambda>r. \<not> fst r) rs)"
proof (induction rs)
  case Nil
  show ?case by simp
next
  case (Cons r rs)
  obtain b n where r: "r = (b, n)" by (cases r)
  from Cons.prems have ih: "map name (failed_datasets configs rs) = map snd (filter (\<lambda>r. \<not> fst r) rs)"
    using Cons.IH by simp
  show ?case
  proof (cases b)
    case True
    with r ih show ?thesis by simp
  next
    case False
    from Cons.prems r have "n \<in> set (map name configs)" by simp
    then obtain c where "c \<in> set configs" "name c = n" by auto
    then have "find (\<lambda>config. name config = n) configs \<noteq> None"
      by (auto simp: find_None_iff)
    then obtain c' where f: "find (\<lambda>config. name config = n) configs = Some c'" by blast
    then have "name c' = n" by (auto simp: find_Some_iff)
    with f False r ih show ?thesis by simp
  qed
qed

lemma sum_list_by_mset:
  fixes g :: "nat \<Rightarrow> 'a::comm_monoid_add"
  assumes "mset xs = mset ys"
  shows "sum_list (map g xs) = sum_list (map g ys)"
proof -
  have "sum_mset (mset (map g xs)) = sum_mset (mset (map g ys))" using assms by simp
  then show ?thesis by (simp only: sum_mset_sum_list)
qed

lemma batch_of_distinct: "distinct (map name (batch_of DATASET_CONFIGS t))"
proof -
  have "distinct (map name (take 4 DATASET_CONFIGS))" by code_simp
  moreover have "distinct (map name (take 4 (drop 4 DATASET_CONFIGS)))" by code_simp
  moreover have "distinct (map name (take 3 (drop 8 DATASET_CONFIGS)))" by code_simp
  ultimately show ?thesis by (simp add: batch_of_def)
qed

lemma batch_of_names: "set (map name (batch_of DATASET_CONFIGS t)) \<subseteq> set (map name DATASET_CONFIGS)"
proof -
  have "set (batch_of DATASET_CONFIGS t) \<subseteq> set DATASET_CONFIGS"
    by (auto simp: batch_of_def dest: in_set_takeD in_set_dropD)
  then show ?thesis by auto
qed


lemma batches_cover: 
  "batch_of DATASET_CONFIGS 1 @ batch_of DATASET_CONFIGS 2 @ batch_of DATASET_CONFIGS 3 =
   DATASET_CONFIGS"
  by code_simp

lemma first_pass_names:
  assumes "mset order = {#1, 2, 3#}"
    and "\<And>t. map snd (fst (outcome t)) = map name (batch_of DATASET_CONFIGS t)"
  shows "mset (map snd (concat (map (\<lambda>t. fst (outcome t)) order))) = mset (map name DATASET_CONFIGS)"
proof -
  let ?g = "\<lambda>t. mset (map name (batch_of DATASET_CONFIGS t))"
  have "mset (map snd (concat (map (\<lambda>t. fst (outcome t)) order))) =
        mset (concat (map (\<lambda>t. map snd (fst (outcome t))) order))"
    by (simp add: map_concat comp_def)
  also have "\<dots> = mset (concat (map (\<lambda>t. map name (batch_of DATASET_CONFIGS t)) order))"
    by (simp only: assms(2))
  also have "\<dots> = sum_list (map ?g order)"
    by (simp add: mset_concat comp_def)
  also have "\<dots> = sum_list (map ?g [1, 2, 3])"
    by (rule sum_list_by_mset) (simp add: assms(1))
  also have "\<dots> = mset (map name (batch_of DATASET_CONFIGS 1 @ batch_of DATASET_CONFIGS 2 @
                                   batch_of DATASET_CONFIGS 3))"
    by simp
  finally show ?thesis by (simp only: batches_cover)
qed

lemma active_members:
  "(t, s) \<in> set (concat (map (\<lambda>t. case snd (outcome t) of None \<Rightarrow> [] | Some s \<Rightarrow> [(t, s)]) order))
   \<longleftrightarrow> t \<in> set order \<and> snd (outcome t) = Some s"
  by (auto split: option.splits)

lemma run_parallel_retry_unfold:
  assumes "collect_results (\<lambda>tab_id. download_datasets_batch browser use_stealth
             (tab_envs env tab_id) (batch_of configs tab_id) True)
             (completion_order env) [] [] = (results, active)"
    and "failed_datasets configs results = failed"
    and "length results - length (filter fst results) > 0" "failed \<noteq> []" "active \<noteq> []"
    and "hd active = (t', s')"
    and "batch_downloads (retry_site env) 0 failed [] s' = (retried, s2)"
  shows "run_parallel browser use_stealth env configs =
     \<lparr>all_results = results, retry_tab_id = Some t', retry_results = retried,
      final_tally = Some (length (filter fst results) + length (filter fst retried),
         int (length configs) - int (length (filter fst results) + length (filter fst retried))),
      still_failed =
        (if int (length configs) - int (length (filter fst results) + length (filter fst retried)) > 0
         then map snd (filter (\<lambda>r. \<not> fst r) retried) else [])\<rparr>"
  using assms by (simp add: run_parallel_def Let_def)

lemma run_parallel_no_retry_unfold:
  assumes "collect_results (\<lambda>tab_id. download_datasets_batch browser use_stealth
             (tab_envs env tab_id) (batch_of configs tab_id) True)
             (completion_order env) [] [] = (results, active)"
    and "failed_datasets configs results = []"
  shows "run_parallel browser use_stealth env configs =
     \<lparr>all_results = results, retry_tab_id = None, retry_results = [],
      final_tally = None, still_failed = []\<rparr>"
  using assms by (simp add: run_parallel_def Let_def)

lemma parallel_retry_with_survivor:
  "mset (completion_order env) = {#1, 2, 3#} \<Longrightarrow>
   t \<in> {1, 2, 3} \<Longrightarrow>
   snd (download_datasets_batch browser use_stealth (tab_envs env t)
          (batch_of DATASET_CONFIGS t) True) \<noteq> None \<Longrightarrow>
   rep = run_parallel browser use_stealth env DATASET_CONFIGS \<Longrightarrow>
   mset (map snd (all_results rep)) = mset (map name DATASET_CONFIGS) \<and>
   map snd (retry_results rep) = map snd (filter (\<lambda>r. \<not> fst r) (all_results rep)) \<and>
   ((\<exists>r \<in> set (all_results rep). \<not> fst r) \<longrightarrow>
      (\<exists>t' s. retry_tab_id rep = Some t' \<and> t' \<in> {1, 2, 3} \<and>
         snd (download_datasets_batch browser use_stealth (tab_envs env t')
                (batch_of DATASET_CONFIGS t') True) = Some s) \<and>
      final_tally rep =
        Some (length (filter fst (all_results rep)) + length (filter fst (retry_results rep)),
              int (length (filter (\<lambda>r. \<not> fst r) (retry_results rep))))) \<and>
   still_failed rep = map snd (filter (\<lambda>r. \<not> fst r) (retry_results rep)) \<and>
   (\<forall>n. n \<in> set (still_failed rep) \<longleftrightarrow>
        (False, n) \<in> set (all_results rep) \<and> (False, n) \<in> set (retry_results rep))"
proof -
  assume order: "mset (completion_order env) = {#1, 2, 3#}"
    and t: "t \<in> {1, 2, 3}"
    and alive: "snd (download_datasets_batch browser use_stealth (tab_envs env t)
          (batch_of DATASET_CONFIGS t) True) \<noteq> None"
    and rep: "rep = run_parallel browser use_stealth env DATASET_CONFIGS"
  define outcome where "outcome = (\<lambda>tab_id. download_datasets_batch browser use_stealth
      (tab_envs env tab_id) (batch_of DATASET_CONFIGS tab_id) True)"
  define results where "results = concat (map (\<lambda>t. fst (outcome t)) (completion_order env))"
  define active where "active = concat (map (\<lambda>t. case snd (outcome t) of None \<Rightarrow> []
      | Some s \<Rightarrow> [(t, s)]) (completion_order env))"
  define failed where "failed = failed_datasets DATASET_CONFIGS results"
  have coll: "collect_results outcome (completion_order env) [] [] = (results, active)"
    by (simp add: collect_results_eq results_def active_def)
  have onames: "map snd (fst (outcome t)) = map name (batch_of DATASET_CONFIGS t)" for t
    unfolding outcome_def by (rule download_datasets_batch_names) (rule batch_of_distinct)
  have names: "mset (map snd results) = mset (map name DATASET_CONFIGS)"
    unfolding results_def using order onames by (rule first_pass_names)
  then have sub: "set (map snd results) \<subseteq> set (map name DATASET_CONFIGS)"
    using mset_eq_setD by blast
  have len: "length results = length DATASET_CONFIGS"
    using names mset_eq_length by fastforce
  have fnames: "map name failed = map snd (filter (\<lambda>r. \<not> fst r) results)"
    unfolding failed_def using sub by (rule failed_datasets_names)
  have split: "length (filter fst results) + length (filter (\<lambda>r. \<not> fst r) results) = length results"
    by (rule sum_length_filter_compl)
  have "set_mset (mset (completion_order env)) = set_mset {#1, 2, 3#}"
    by (simp only: order)
  then have set_order: "set (completion_order env) = {1, 2, 3}" by simp
  show ?thesis
  proof (cases "\<exists>r \<in> set results. \<not> fst r")
    case False
    then have nofail: "filter (\<lambda>r. \<not> fst r) results = []" by (auto simp: filter_empty_conv)
    with fnames have "failed = []" by simp
    then have rep': "rep = \<lparr>all_results = results, retry_tab_id = None, retry_results = [],
                  final_tally = None, still_failed = []\<rparr>"
      unfolding rep using run_parallel_no_retry_unfold[OF coll[unfolded outcome_def]]
      by (simp add: failed_def)
    show ?thesis using rep' names nofail False by simp
  next
    case True
    then have ne: "filter (\<lambda>r. \<not> fst r) results \<noteq> []" by (auto simp: filter_empty_conv)
    with fnames have failed_ne: "failed \<noteq> []" by auto
    from ne split have fc: "length results - length (filter fst results) > 0"
      by (metis add_diff_cancel_left' length_greater_0_conv)
    from alive obtain s0 where "snd (outcome t) = Some s0" unfolding outcome_def by blast
    with t set_order have "(t, s0) \<in> set active"
      unfolding active_def by (simp only: active_members)
    then have active_ne: "active \<noteq> []" by auto
    obtain t' s' where hd: "hd active = (t', s')" by (cases "hd active")
    from active_ne hd have "(t', s') \<in> set active" by (metis hd_in_set)
    then have t': "t' \<in> {1, 2, 3}" "snd (outcome t') = Some s'"
      using set_order unfolding active_def by (simp_all only: active_members)
    obtain retried s2 where bd: "batch_downloads (retry_site env) 0 failed [] s' = (retried, s2)"
      by (metis prod.collapse)
    have rnames: "map snd retried = map snd (filter (\<lambda>r. \<not> fst r) results)"
      using batch_downloads_names[of "retry_site env" 0 failed "[]" s'] bd fnames by simp
    then have "length retried = length (filter (\<lambda>r. \<not> fst r) results)"
      by (metis length_map)
    moreover have "length (filter fst retried) + length (filter (\<lambda>r. \<not> fst r) retried) = length retried"
      by (rule sum_length_filter_compl)
    ultimately have tally: "int (length DATASET_CONFIGS) -
        int (length (filter fst results) + length (filter fst retried)) =
        int (length (filter (\<lambda>r. \<not> fst r) retried))"
      using split len by simp
    have rep': "rep = \<lparr>all_results = results, retry_tab_id = Some t', retry_results = retried,
         final_tally = Some (length (filter fst results) + length (filter fst retried),
                             int (length (filter (\<lambda>r. \<not> fst r) retried))),
         still_failed = map snd (filter (\<lambda>r. \<not> fst r) retried)\<rparr>"
      unfolding rep
      by (simp only: run_parallel_retry_unfold[OF coll[unfolded outcome_def] failed_def[symmetric]
          fc failed_ne active_ne hd bd] tally) auto
    have both: "n \<in> set (map snd (filter (\<lambda>r. \<not> fst r) retried)) \<longleftrightarrow>
        (False, n) \<in> set results \<and> (False, n) \<in> set retried" for n
    proof
      assume "n \<in> set (map snd (filter (\<lambda>r. \<not> fst r) retried))"
      then have r: "(False, n) \<in> set retried" by auto
      then have "n \<in> set (map snd retried)" by force
      with rnames have "n \<in> set (map snd (filter (\<lambda>r. \<not> fst r) results))" by simp
      then have "(False, n) \<in> set results" by auto
      with r show "(False, n) \<in> set results \<and> (False, n) \<in> set retried" by simp
    next
      assume "(False, n) \<in> set results \<and> (False, n) \<in> set retried"
      then show "n \<in> set (map snd (filter (\<lambda>r. \<not> fst r) retried))" by force
    qed
    show ?thesis using rep' names rnames t' both unfolding outcome_def by simp
  qed
qed


lemma run_parallel_no_active_unfold:
  assumes "collect_results (\<lambda>tab_id. download_datasets_batch browser use_stealth
             (tab_envs env tab_id) (batch_of configs tab_id) True)
             (completion_order env) [] [] = (results, [])"
  shows "run_parallel browser use_stealth env configs =
     \<lparr>all_results = results, retry_tab_id = None, retry_results = [],
      final_tally = None, still_failed = []\<rparr>"
  using assms by (simp add: run_parallel_def Let_def)

lemma parallel_no_survivor:
  assumes "set (completion_order env) \<subseteq> {1, 2, 3}"
    and "\<forall>t \<in> {1, 2, 3}. snd (download_datasets_batch browser use_stealth (tab_envs env t)
          (batch_of configs t) True) = None"
  shows "retry_tab_id (run_parallel browser use_stealth env configs) = None \<and>
         retry_results (run_parallel browser use_stealth env configs) = [] \<and>
         final_tally (run_parallel browser use_stealth env configs) = None"
proof -
  let ?outcome = "\<lambda>tab_id. download_datasets_batch browser use_stealth
             (tab_envs env tab_id) (batch_of configs tab_id) True"
  have "concat (map (\<lambda>t. case snd (?outcome t) of None \<Rightarrow> [] | Some s \<Rightarrow> [(t, s)])
          (completion_order env)) = []"
    using assms by (auto split: option.splits)
  then have "collect_results ?outcome (completion_order env) [] [] =
      (concat (map (\<lambda>t. fst (?outcome t)) (completion_order env)), [])"
    by (simp add: collect_results_eq)
  from run_parallel_no_active_unfold[OF this] show ?thesis by simp
qed

text \<open>
  Claim C8, as the code has it. Let the three tabs complete in any order. If some tab has
  finished without fatal error (its batch returned its scraper), then every dataset has
  exactly one first-pass result; the retry pass re-attempts exactly the datasets that
  failed the first pass, in the order of their results, with the scraper of a tab that
  finished without fatal error; the final counts add the successes of both passes and
  count as failed the datasets that failed the retry pass; and a dataset is listed as
  still failed exactly when it failed in both passes. If no tab has finished without fatal
  error, there is no retry pass and no final tally: the first-pass failures stand. (The
  browser settings are parameters here: with the shipped \<open>BROWSER\<close> and \<open>USE_STEALTH\<close> the
  constructor raises in every tab.)
\<close>

theorem C8_parallel_retry_and_tally:
  "mset (completion_order env) = {#1, 2, 3#} \<Longrightarrow>
   rep = run_parallel browser use_stealth env DATASET_CONFIGS \<Longrightarrow>
   ((\<exists>t \<in> {1, 2, 3}. snd (download_datasets_batch browser use_stealth (tab_envs env t)
          (batch_of DATASET_CONFIGS t) True) \<noteq> None) \<longrightarrow>
      mset (map snd (all_results rep)) = mset (map name DATASET_CONFIGS) \<and>
      map snd (retry_results rep) = map snd (filter (\<lambda>r. \<not> fst r) (all_results rep)) \<and>
      ((\<exists>r \<in> set (all_results rep). \<not> fst r) \<longrightarrow>
         (\<exists>t' s. retry_tab_id rep = Some t' \<and> t' \<in> {1, 2, 3} \<and>
            snd (download_datasets_batch browser use_stealth (tab_envs env t')
                   (batch_of DATASET_CONFIGS t') True) = Some s) \<and>
         final_tally rep =
           Some (length (filter fst (all_results rep)) + length (filter fst (retry_results rep)),
                 int (length (filter (\<lambda>r. \<not> fst r) (retry_results rep))))) \<and>
      still_failed rep = map snd (filter (\<lambda>r. \<not> fst r) (retry_results rep)) \<and>
      (\<forall>n. n \<in> set (still_failed rep) \<longleftrightarrow>
           (False, n) \<in> set (all_results rep) \<and> (False, n) \<in> set (retry_results rep))) \<and>
   ((\<forall>t \<in> {1, 2, 3}. snd (download_datasets_batch browser use_stealth (tab_envs env t)
          (batch_of DATASET_CONFIGS t) True) = None) \<longrightarrow>
      retry_tab_id rep = None \<and> retry_results rep = [] \<and> final_tally rep = None)"
proof -
  assume order: "mset (completion_order env) = {#1, 2, 3#}"
    and rep: "rep = run_parallel browser use_stealth env DATASET_CONFIGS"
  have "set_mset (mset (completion_order env)) = set_mset {#1, 2, 3#}"
    by (simp only: order)
  then have sub: "set (completion_order env) \<subseteq> {1, 2, 3}" by simp
  show ?thesis
  proof (rule conjI; rule impI)
    assume "\<exists>t \<in> {1, 2, 3}. snd (download_datasets_batch browser use_stealth (tab_envs env t)
          (batch_of DATASET_CONFIGS t) True) \<noteq> None"
    then obtain t where t: "t \<in> {1, 2, 3}"
      and alive: "snd (download_datasets_batch browser use_stealth (tab_envs env t)
          (batch_of DATASET_CONFIGS t) True) \<noteq> None" by blast
    from parallel_retry_with_survivor[OF order t alive rep]
    show "mset (map snd (all_results rep)) = mset (map name DATASET_CONFIGS) \<and>
      map snd (retry_results rep) = map snd (filter (\<lambda>r. \<not> fst r) (all_results rep)) \<and>
      ((\<exists>r \<in> set (all_results rep). \<not> fst r) \<longrightarrow>
         (\<exists>t' s. retry_tab_id rep = Some t' \<and> t' \<in> {1, 2, 3} \<and>
            snd (download_datasets_batch browser use_stealth (tab_envs env t')
                   (batch_of DATASET_CONFIGS t') True) = Some s) \<and>
         final_tally rep =
           Some (length (filter fst (all_results rep)) + length (filter fst (retry_results rep)),
                 int (length (filter (\<lambda>r. \<not> fst r) (retry_results rep))))) \<and>
      still_failed rep = map snd (filter (\<lambda>r. \<not> fst r) (retry_results rep)) \<and>
      (\<forall>n. n \<in> set (still_failed rep) \<longleftrightarrow>
           (False, n) \<in> set (all_results rep) \<and> (False, n) \<in> set (retry_results rep))" .
  next
    assume "\<forall>t \<in> {1, 2, 3}. snd (download_datasets_batch browser use_stealth (tab_envs env t)
          (batch_of DATASET_CONFIGS t) True) = None"
    from parallel_no_survivor[OF sub this]
    show "retry_tab_id rep = None \<and> retry_results rep = [] \<and> final_tally rep = None"
      unfolding rep .
  qed
qed

text \<open>Three Firefox tabs completing in the order 3, 1, 2: navigation fails in tab 2, one
  download of tab 3 times out on every attempt, and one download of the retry pass meets an
  unexpected error.\<close>

theorem C8_parallel_witness:
  "all_results (run_parallel ''firefox'' True
      \<lparr>tab_envs = (\<lambda>t. \<lparr>browser_libs = \<lparr>uc_Chrome = None, webdriver_Chrome = None,
           webdriver_Firefox = None, implicitly_wait = None, set_page_load_timeout = None\<rparr>,
         tab_navigate = (if t = 2 then Some NoSuchElementException else None),
         tab_site = (\<lambda>i a s. if t = 3 \<and> i = 1 \<and> s = AwaitDownload then Some TimeoutException
                              else None),
         tab_quit = None\<rparr>),
       completion_order = [3, 1, 2],
       retry_site = (\<lambda>i a s. if i = 2 \<and> s = ClickExport then Some OtherException else None)\<rparr>
      DATASET_CONFIGS) =
     [(True, ''RawDataHybridAsset''), (False, ''RawDataDomesticHybridAsset''),
      (True, ''RawDataMoneyMarket''), (True, ''RawDataEquity''),
      (True, ''RawDataDomesticEquity''), (True, ''RawDataHybridEquity''),
      (True, ''RawDataHybridDomesticEquity''), (False, ''RawDataHybridBond''),
      (False, ''RawDataHybridDomesticBond''), (False, ''RawDataBond''),
      (False, ''RawDataDomesticBond'')] \<and>
   retry_results (run_parallel ''firefox'' True
      \<lparr>tab_envs = (\<lambda>t. \<lparr>browser_libs = \<lparr>uc_Chrome = None, webdriver_Chrome = None,
           webdriver_Firefox = None, implicitly_wait = None, set_page_load_timeout = None\<rparr>,
         tab_navigate = (if t = 2 then Some NoSuchElementException else None),
         tab_site = (\<lambda>i a s. if t = 3 \<and> i = 1 \<and> s = AwaitDownload then Some TimeoutException
                              else None),
         tab_quit = None\<rparr>),
       completion_order = [3, 1, 2],
       retry_site = (\<lambda>i a s. if i = 2 \<and> s = ClickExport then Some OtherException else None)\<rparr>
      DATASET_CONFIGS) =
     [(True, ''RawDataDomesticHybridAsset''), (True, ''RawDataHybridBond''),
      (False, ''RawDataHybridDomesticBond''), (True, ''RawDataBond''),
      (True, ''RawDataDomesticBond'')] \<and>
   final_tally (run_parallel ''firefox'' True
      \<lparr>tab_envs = (\<lambda>t. \<lparr>browser_libs = \<lparr>uc_Chrome = None, webdriver_Chrome = None,
           webdriver_Firefox = None, implicitly_wait = None, set_page_load_timeout = None\<rparr>,
         tab_navigate = (if t = 2 then Some NoSuchElementException else None),
         tab_site = (\<lambda>i a s. if t = 3 \<and> i = 1 \<and> s = AwaitDownload then Some TimeoutException
                              else None),
         tab_quit = None\<rparr>),
       completion_order = [3, 1, 2],
       retry_site = (\<lambda>i a s. if i = 2 \<and> s = ClickExport then Some OtherException else None)\<rparr>
      DATASET_CONFIGS) = Some (10, 1) \<and>
   still_failed (run_parallel ''firefox'' True
      \<lparr>tab_envs = (\<lambda>t. \<lparr>browser_libs = \<lparr>uc_Chrome = None, webdriver_Chrome = None,
           webdriver_Firefox = None, implicitly_wait = None, set_page_load_timeout = None\<rparr>,
         tab_navigate = (if t = 2 then Some NoSuchElementException else None),
         tab_site = (\<lambda>i a s. if t = 3 \<and> i = 1 \<and> s = AwaitDownload then Some TimeoutException
                              else None),
         tab_quit = None\<rparr>),
       completion_order = [3, 1, 2],
       retry_site = (\<lambda>i a s. if i = 2 \<and> s = ClickExport then Some OtherException else None)\<rparr>
      DATASET_CONFIGS) = [''RawDataHybridDomesticBond'']"
proof -
  let ?env = "\<lparr>tab_envs = (\<lambda>t. \<lparr>browser_libs = \<lparr>uc_Chrome = None, webdriver_Chrome = None,
           webdriver_Firefox = None, implicitly_wait = None, set_page_load_timeout = None\<rparr>,
         tab_navigate = (if t = 2 then Some NoSuchElementException else None),
         tab_site = (\<lambda>i a s. if t = 3 \<and> i = 1 \<and> s = AwaitDownload then Some TimeoutException
                              else None),
         tab_quit = None\<rparr>),
       completion_order = [3, 1, 2],
       retry_site = (\<lambda>i a s. if i = 2 \<and> s = ClickExport then Some OtherException else None)\<rparr>"
  let ?rep = "run_parallel ''firefox'' True ?env DATASET_CONFIGS"
  have order: "mset (completion_order ?env) = {#1, 2, 3#}" by simp
  have t: "(3::nat) \<in> {1, 2, 3}" by simp
  have alive: "snd (download_datasets_batch ''firefox'' True (tab_envs ?env 3)
          (batch_of DATASET_CONFIGS 3) True) \<noteq> None"
    by code_simp
  have first: "all_results ?rep =
     [(True, ''RawDataHybridAsset''), (False, ''RawDataDomesticHybridAsset''),
      (True, ''RawDataMoneyMarket''), (True, ''RawDataEquity''),
      (True, ''RawDataDomesticEquity''), (True, ''RawDataHybridEquity''),
      (True, ''RawDataHybridDomesticEquity''), (False, ''RawDataHybridBond''),
      (False, ''RawDataHybridDomesticBond''), (False, ''RawDataBond''),
      (False, ''RawDataDomesticBond'')]"
    by code_simp
  have second: "retry_results ?rep =
     [(True, ''RawDataDomesticHybridAsset''), (True, ''RawDataHybridBond''),
      (False, ''RawDataHybridDomesticBond''), (True, ''RawDataBond''),
      (True, ''RawDataDomesticBond'')]"
    by code_simp
  from t alive have ex: "\<exists>t \<in> {1, 2, 3}. snd (download_datasets_batch ''firefox'' True
          (tab_envs ?env t) (batch_of DATASET_CONFIGS t) True) \<noteq> None" by blast
  from C8_parallel_retry_and_tally[OF order refl] ex
  have tally: "(\<exists>r \<in> set (all_results ?rep). \<not> fst r) \<longrightarrow>
      final_tally ?rep =
        Some (length (filter fst (all_results ?rep)) + length (filter fst (retry_results ?rep)),
              int (length (filter (\<lambda>r. \<not> fst r) (retry_results ?rep))))"
    and sf: "still_failed ?rep = map snd (filter (\<lambda>r. \<not> fst r) (retry_results ?rep))"
    by blast+
  have "\<exists>r \<in> set (all_results ?rep). \<not> fst r" unfolding first by simp
  with tally have "final_tally ?rep =
        Some (length (filter fst (all_results ?rep)) + length (filter fst (retry_results ?rep)),
              int (length (filter (\<lambda>r. \<not> fst r) (retry_results ?rep))))" by blast
  then have ft: "final_tally ?rep = Some (10, 1)" unfolding first second by simp
  have "still_failed ?rep = [''RawDataHybridDomesticBond'']" using sf unfolding second by simp
  with first second ft show ?thesis by blast
qed

text \<open>
  The claim as the specification states it has every dataset that failed its first pass
  re-attempted. When navigation fails in all three tabs (a fatal error of each session),
  all eleven datasets are marked failed, no tab is left for the retry, and none of them is
  attempted again.
\<close>

theorem C8_no_surviving_session_counterexample:
  "all_results (run_parallel ''firefox'' True
      \<lparr>tab_envs = (\<lambda>t. \<lparr>browser_libs = \<lparr>uc_Chrome = None, webdriver_Chrome = None,
           webdriver_Firefox = None, implicitly_wait = None, set_page_load_timeout = None\<rparr>,
         tab_navigate = Some NoSuchElementException,
         tab_site = (\<lambda>i a s. None), tab_quit = None\<rparr>),
       completion_order = [1, 2, 3], retry_site = (\<lambda>i a s. None)\<rparr>
      DATASET_CONFIGS) =
     [(False, ''RawDataEquity''), (False, ''RawDataDomesticEquity''),
      (False, ''RawDataHybridEquity''), (False, ''RawDataHybridDomesticEquity''),
      (False, ''RawDataHybridBond''), (False, ''RawDataHybridDomesticBond''),
      (False, ''RawDataBond''), (False, ''RawDataDomesticBond''),
      (False, ''RawDataHybridAsset''), (False, ''RawDataDomesticHybridAsset''),
      (False, ''RawDataMoneyMarket'')] \<and>
   retry_results (run_parallel ''firefox'' True
      \<lparr>tab_envs = (\<lambda>t. \<lparr>browser_libs = \<lparr>uc_Chrome = None, webdriver_Chrome = None,
           webdriver_Firefox = None, implicitly_wait = None, set_page_load_timeout = None\<rparr>,
         tab_navigate = Some NoSuchElementException,
         tab_site = (\<lambda>i a s. None), tab_quit = None\<rparr>),
       completion_order = [1, 2, 3], retry_site = (\<lambda>i a s. None)\<rparr>
      DATASET_CONFIGS) = [] \<and>
   final_tally (run_parallel ''firefox'' True
      \<lparr>tab_envs = (\<lambda>t. \<lparr>browser_libs = \<lparr>uc_Chrome = None, webdriver_Chrome = None,
           webdriver_Firefox = None, implicitly_wait = None, set_page_load_timeout = None\<rparr>,
         tab_navigate = Some NoSuchElementException,
         tab_site = (\<lambda>i a s. None), tab_quit = None\<rparr>),
       completion_order = [1, 2, 3], retry_site = (\<lambda>i a s. None)\<rparr>
      DATASET_CONFIGS) = None"
  by code_simp

section \<open>The download completion detector\<close>

lemma check_candidates_found:
  "check_candidates dir fs t = (Some (f, samples), t') \<Longrightarrow> f \<in> set fs \<and> \<not> in_progress f"
proof (induction fs arbitrary: t)
  case Nil
  then show ?case by simp
next
  case (Cons g gs)
  show ?case
  proof (cases "in_progress g")
    case True
    with Cons.prems have "check_candidates dir gs t = (Some (f, samples), t')" by simp
    from Cons.IH[OF this] show ?thesis by simp
  next
    case False
    obtain r t1 smp where s: "sample_sizes dir g 5 (-1) t [] = (r, t1, smp)"
      by (metis prod.collapse)
    show ?thesis
    proof (cases "r = Stable \<or> path_exists (dir t1) g")
      case True
      with False s Cons.prems have "f = g"
        by (cases r) (auto simp del: sample_sizes.simps)
      with False show ?thesis by simp
    next
      case False2: False
      with False s Cons.prems have "check_candidates dir gs t1 = (Some (f, samples), t')"
        by (cases r) (auto simp del: sample_sizes.simps)
      from Cons.IH[OF this] show ?thesis by simp
    qed
  qed
qed

lemma wait_loop_found:
  "wait_loop dir initial_files timeout start_time t = Inr (f, samples) \<Longrightarrow>
   f \<notin> set initial_files \<and> \<not> in_progress f"
proof (induction dir initial_files timeout start_time t rule: wait_loop.induct)
  case (1 dir initial_files timeout start_time t)
  let ?new = "filter (\<lambda>f. f \<notin> set initial_files) (listdir (dir t))"
  obtain r t' where c: "check_candidates dir ?new t = (r, t')" by (metis prod.collapse)
  from "1.prems" have lt: "t - start_time < timeout"
    by (subst (asm) wait_loop.simps) (simp split: if_splits)
  show ?case
  proof (cases r)
    case None
    with c lt "1.prems" have "wait_loop dir initial_files timeout start_time (t' + 5) = Inr (f, samples)"
      by (subst (asm) wait_loop.simps) simp
    with "1.IH"[OF lt c[symmetric] None] show ?thesis by simp
  next
    case (Some found)
    with c lt "1.prems" have "found = (f, samples)"
      by (subst (asm) wait_loop.simps) simp
    with Some c have "check_candidates dir ?new t = (Some (f, samples), t')" by simp
    from check_candidates_found[OF this] show ?thesis by simp
  qed
qed

text \<open>What the detector returns is new relative to the baseline and carries no in-progress
  suffix.\<close>

lemma wait_returns_new_finished_name:
  "wait_for_download_completion dir initial_files timeout now = Inr (f, samples) \<Longrightarrow>
   f \<notin> set initial_files \<and> \<not> in_progress f"
  unfolding wait_for_download_completion_def by (rule wait_loop_found)

text \<open>
  Claim C4 at an input where the code departs from it. With an empty baseline, a file
  \<open>data.xls\<close> that stays empty while \<open>data.xls.part\<close> grows (the placeholder a browser
  creates under the final name) is sampled five times at size 0 and then returned by the
  fallback of lines 266 to 268, whose log line says that the size check passed; no two
  consecutive samples agreed and were nonzero. The same happens to a file that grows at
  every sample.
\<close>

theorem C4_unstable_file_returned:
  "wait_for_download_completion
     (\<lambda>t. [(''data.xls'', 0), (''data.xls.part'', 100 * t)]) [] DOWNLOAD_WAIT_TIMEOUT 0 =
     Inr (''data.xls'', [0, 0, 0, 0, 0]) \<and>
   \<not> stability_observed [0, 0, 0, 0, 0] \<and>
   wait_for_download_completion
     (\<lambda>t. [(''data.xls'', 100 * t)]) [] DOWNLOAD_WAIT_TIMEOUT 0 =
     Inr (''data.xls'', [100, 200, 300, 400, 500]) \<and>
   \<not> stability_observed [100, 200, 300, 400, 500]"
  by code_simp

section \<open>Choosing the radio button to click\<close>

text \<open>The scope selection takes only a control that is displayed and enabled; the region
  selection takes only a displayed one.\<close>

lemma scope_scan_visible_enabled:
  "scope_scan rs = Some r \<Longrightarrow> r \<in> set rs \<and> is_displayed r \<and> is_enabled r"
  by (induction rs) (auto split: option.splits if_splits)

lemma scope_target_visible_enabled:
  "select_scope_target doc = Inr r \<Longrightarrow> is_displayed r \<and> is_enabled r \<and> aria_label r = ''jeonche''"
proof -
  assume "select_scope_target doc = Inr r"
  then have "scope_scan (find_radios doc ''jeonche'') = Some r"
    by (simp add: select_scope_target_def split: option.splits)
  from scope_scan_visible_enabled[OF this] show ?thesis by (auto simp: find_radios_def)
qed

lemma region_scan_visible:
  "region_scan rs = Some r \<Longrightarrow> r \<in> set rs \<and> is_displayed r"
  by (induction rs) (auto split: option.splits if_splits)

lemma region_target_visible:
  "select_region_target doc label = Inr r \<Longrightarrow> is_displayed r \<and> aria_label r = label"
proof -
  assume a: "select_region_target doc label = Inr r"
  show ?thesis
  proof (cases "region_scan (find_radios doc label)")
    case (Some t)
    with a have "t = r" by (auto simp: select_region_target_def Let_def split: if_splits)
    with Some region_scan_visible[of "find_radios doc label" r] show ?thesis
      by (auto simp: find_radios_def)
  next
    case None
    with a obtain rest where "filter is_displayed (find_radios doc label) = r # rest"
      by (auto simp: select_region_target_def Let_def split: if_splits list.splits)
    then have "r \<in> set (filter is_displayed (find_radios doc label))" by simp
    then show ?thesis by (auto simp: find_radios_def)
  qed
qed

text \<open>
  Claim C7 at inputs where the code departs from it. On a page with a hidden duplicate of
  the \<open>wolgan\<close> control before the visible one, the periodicity selection takes the hidden
  duplicate: its loop (lines 1331 to 1345) and its fallback (line 1349) never ask
  \<open>is_displayed()\<close> or \<open>is_enabled()\<close>. On a page with a displayed but disabled duplicate of the
  region control, the region selection takes the disabled one: it asks \<open>is_displayed()\<close>
  only. The scope selection, on the same kind of page, skips the hidden duplicate as its
  comments require (lines 1229, 1230, 1244, 1245).
\<close>

theorem C7_hidden_or_disabled_target:
  "select_period_target
     [\<lparr>aria_label = ''wolgan'', is_displayed = False, is_enabled = True,
       radiogroup = Some [''wolgan'', ''nyeongan'']\<rparr>,
      \<lparr>aria_label = ''wolgan'', is_displayed = True, is_enabled = True,
       radiogroup = Some [''wolgan'', ''nyeongan'']\<rparr>] =
     Inr \<lparr>aria_label = ''wolgan'', is_displayed = False, is_enabled = True,
          radiogroup = Some [''wolgan'', ''nyeongan'']\<rparr> \<and>
   select_region_target
     [\<lparr>aria_label = ''gungnae'', is_displayed = True, is_enabled = False,
       radiogroup = Some [''jeonche'', ''gungnae'', ''haeoe'']\<rparr>,
      \<lparr>aria_label = ''gungnae'', is_displayed = True, is_enabled = True,
       radiogroup = Some [''jeonche'', ''gungnae'', ''haeoe'']\<rparr>] ''gungnae'' =
     Inr \<lparr>aria_label = ''gungnae'', is_displayed = True, is_enabled = False,
          radiogroup = Some [''jeonche'', ''gungnae'', ''haeoe'']\<rparr> \<and>
   select_scope_target
     [\<lparr>aria_label = ''jeonche'', is_displayed = False, is_enabled = True,
       radiogroup = Some [''jeonche'', ''gongmo'', ''samo'']\<rparr>,
      \<lparr>aria_label = ''jeonche'', is_displayed = True, is_enabled = True,
       radiogroup = Some [''jeonche'', ''gongmo'', ''samo'']\<rparr>] =
     Inr \<lparr>aria_label = ''jeonche'', is_displayed = True, is_enabled = True,
          radiogroup = Some [''jeonche'', ''gongmo'', ''samo'']\<rparr>"
  by code_simp

section \<open>The synthetic dropdown\<close>










text \<open>
  Claim C6. When the button is located and the value it displays equals the target, the
  operation returns \<open>True\<close> at once: no action is performed on the page (no open or close
  click) and the page, with its displayed value, is as it was. A second call with the same
  target, made when the first has left the target displayed, is such a call.
\<close>

theorem C6_skip_when_already_selected:
  "0 < max_retries \<Longrightarrow> locate_button drv w = None \<Longrightarrow>
   current_value drv w = Some option_text \<Longrightarrow>
   select_from_custom_dropdown drv option_text max_retries w = (Inr True, w, [])"
proof -
  assume m: "0 < max_retries" and b: "locate_button drv w = None"
    and v: "current_value drv w = Some option_text"
  from m have u: "[0..<max_retries] = 0 # [Suc 0..<max_retries]" by (rule upt_conv_Cons)
  have "dropdown_pass drv option_text 0 max_retries w = (Return True w, [])"
    using b v by (simp add: dropdown_pass_def)
  then show ?thesis by (simp add: select_from_custom_dropdown_def u)
qed

text \<open>Two calls in succession on the page where a selection sticks: the first opens and
  selects, the second skips.\<close>

theorem C6_second_call_witness:
  "select_from_custom_dropdown working_page ''5nyeon'' 3 \<lparr>shown = ''1nyeon'', expanded = False\<rparr> =
     (Inr True, \<lparr>shown = ''5nyeon'', expanded = False\<rparr>,
      [OpenClicks, ListboxLookup, OptionSearch, OptionClick]) \<and>
   select_from_custom_dropdown working_page ''5nyeon'' 3 \<lparr>shown = ''5nyeon'', expanded = False\<rparr> =
     (Inr True, \<lparr>shown = ''5nyeon'', expanded = False\<rparr>, [])"
proof -
  let ?w1 = "\<lparr>shown = ''5nyeon'', expanded = False\<rparr>"
  have first: "select_from_custom_dropdown working_page ''5nyeon'' 3
      \<lparr>shown = ''1nyeon'', expanded = False\<rparr> =
     (Inr True, ?w1, [OpenClicks, ListboxLookup, OptionSearch, OptionClick])"
    by code_simp
  have pos: "0 < (3::nat)" by simp
  have b: "locate_button working_page ?w1 = None" by (simp add: working_page_def)
  have v: "current_value working_page ?w1 = Some ''5nyeon''" by (simp add: working_page_def)
  from C6_skip_when_already_selected[OF pos b v] first show ?thesis by simp
qed

end
